theory Spec2Isabelle
  imports Main "HOL-Library.Word"
begin

unbundle bit_operations_syntax

section \<open>Basic types\<close>

text \<open>
  Go's \<open>byte\<close> and \<open>uint64\<close> are machine words; \<open>+\<close> and \<open>-\<close> wrap around and the
  order is the unsigned one. A \<open>*big.Int\<close> is an optional unbounded integer
  (\<open>None\<close> is the nil pointer).
\<close>

type_synonym byte = "8 word"
type_synonym uint64 = "64 word"

section \<open>helper/blobs.go: blob identifier lists\<close>

type_synonym BlobID = uint64
type_synonym BlobIDs = "BlobID list"

text \<open>
  \<open>make(BlobIDs, count)\<close> allocates \<open>count\<close> zero identifiers. The two \<open>for\<close> loops of
  \<open>GetBlobListByIndex\<close> count \<open>i\<close> from 0 while \<open>i < count\<close> and store into slot \<open>i\<close>;
  \<open>BlobID(i)\<close> is the identity conversion.
\<close>

lemma unat_succ_less: "(i::'a::len word) < count \<Longrightarrow> unat (i + 1) = Suc (unat i)"
proof -
  assume a: "i < count"
  have b: "unat i < unat count" using a by (simp add: word_less_nat_alt)
  have c: "unat count < 2 ^ LENGTH('a)" by (rule unsigned_less)
  have "unat i + unat (1::'a word) < 2 ^ LENGTH('a)" using b c by (simp only: unat_1)
  then show ?thesis by (simp add: unat_add_lem [THEN iffD1])
qed

function asc_loop :: "BlobID \<Rightarrow> uint64 \<Rightarrow> uint64 \<Rightarrow> BlobIDs \<Rightarrow> BlobIDs" where
  "asc_loop startIndex count i blobList =
     (if i < count
      then asc_loop startIndex count (i + 1) (blobList[unat i := startIndex + i])
      else blobList)"
  by pat_completeness auto
termination
  by (relation "measure (\<lambda>(s, count, i, l). unat count - unat i)")
     (simp_all add: unat_succ_less word_less_nat_alt diff_less_mono2)

function desc_loop :: "BlobID \<Rightarrow> uint64 \<Rightarrow> uint64 \<Rightarrow> BlobIDs \<Rightarrow> BlobIDs" where
  "desc_loop endIndex count i blobList =
     (if i < count
      then desc_loop endIndex count (i + 1) (blobList[unat i := endIndex - i])
      else blobList)"
  by pat_completeness auto
termination
  by (relation "measure (\<lambda>(e, count, i, l). unat count - unat i)")
     (simp_all add: unat_succ_less word_less_nat_alt diff_less_mono2)

declare asc_loop.simps [simp del] desc_loop.simps [simp del]

definition GetBlobListByIndex :: "BlobID \<Rightarrow> BlobID \<Rightarrow> BlobIDs" where
  "GetBlobListByIndex startIndex endIndex =
     (let count = (if endIndex > startIndex
                   then endIndex - startIndex + 1
                   else startIndex - endIndex + 1);
          blobList = replicate (unat count) (0 :: BlobID)
      in if endIndex > startIndex
         then asc_loop startIndex count 0 blobList
         else desc_loop endIndex count 0 blobList)"

section \<open>config: fork activation and API versions\<close>

text \<open>
  \<open>ForkConfig\<close> holds three optional activation timestamps. \<open>IsShanghai\<close>, \<open>IsCancun\<close> and
  \<open>IsPrague\<close> compare the block timestamp, converted to a big integer, with the
  configured one: \<open>x.Cmp(y) >= 0\<close> is \<open>x \<ge> y\<close>.
\<close>

record ForkConfig =
  ShanghaiTimestamp :: "int option"
  CancunTimestamp :: "int option"
  PragueTimestamp :: "int option"

definition IsShanghai :: "ForkConfig \<Rightarrow> uint64 \<Rightarrow> bool" where
  "IsShanghai f blockTimestamp =
     (case ShanghaiTimestamp f of
        None \<Rightarrow> False
      | Some ts \<Rightarrow> uint blockTimestamp \<ge> ts)"

definition IsCancun :: "ForkConfig \<Rightarrow> uint64 \<Rightarrow> bool" where
  "IsCancun f blockTimestamp =
     (case CancunTimestamp f of
        None \<Rightarrow> False
      | Some ts \<Rightarrow> uint blockTimestamp \<ge> ts)"

definition IsPrague :: "ForkConfig \<Rightarrow> uint64 \<Rightarrow> bool" where
  "IsPrague f blockTimestamp =
     (case PragueTimestamp f of
        None \<Rightarrow> False
      | Some ts \<Rightarrow> uint blockTimestamp \<ge> ts)"

definition GetPayloadVersion :: "ForkConfig \<Rightarrow> uint64 \<Rightarrow> int" where
  "GetPayloadVersion f timestamp =
     (if IsPrague f timestamp then 4
      else if IsCancun f timestamp then 3
      else if IsShanghai f timestamp then 2
      else 1)"

definition NewPayloadVersion :: "ForkConfig \<Rightarrow> uint64 \<Rightarrow> int" where
  "NewPayloadVersion f timestamp = GetPayloadVersion f timestamp"

section \<open>types/blobs.go: commitments, proofs and versioned hashes\<close>

text \<open>
  Fixed-size byte arrays (\<open>KZGCommitment\<close> and \<open>KZGProof\<close> of 48 bytes, \<open>common.Hash\<close> of
  32 bytes, \<open>Blob\<close> of \<open>FieldElementsPerBlob * 32\<close> bytes) are byte lists of that length.

  \<open>sha256.Sum256\<close> belongs to the Go standard library, not to this repository: it is a
  parameter \<open>sum256\<close> of every function that calls it. Its result type is \<open>[32]byte\<close>,
  which \<open>is_sum256\<close> records.
\<close>

type_synonym KZGCommitment = "byte list"
type_synonym KZGProof = "byte list"
type_synonym Hash = "byte list"
type_synonym Blob = "byte list"
type_synonym Blobs = "Blob list"

type_synonym sha256 = "byte list \<Rightarrow> byte list"

definition is_sum256 :: "sha256 \<Rightarrow> bool" where
  "is_sum256 sum256 = (\<forall>bs. length (sum256 bs) = 32)"

definition BlobCommitmentVersionKZG :: byte where
  "BlobCommitmentVersionKZG = 0x01"

definition FieldElementsPerBlob :: nat where
  "FieldElementsPerBlob = 4096"

definition KZGToVersionedHash :: "sha256 \<Rightarrow> KZGCommitment \<Rightarrow> Hash" where
  "KZGToVersionedHash sum256 kzg =
     (let h = sum256 kzg;
          h = h[0 := BlobCommitmentVersionKZG]
      in h)"

definition ComputeVersionedHash :: "sha256 \<Rightarrow> KZGCommitment \<Rightarrow> Hash" where
  "ComputeVersionedHash sum256 c = KZGToVersionedHash sum256 c"

text \<open>
  Errors are values. \<open>errors.New\<close> carries its message; \<open>fmt.Errorf\<close> is kept as its
  format string together with its arguments in source order, so what an error reports
  is exactly what the argument list holds.
\<close>

datatype error = ErrorsNew string | Errorf string "fmt_arg list"
  and fmt_arg = ArgError error | ArgUint64 uint64 | ArgHash Hash | ArgType string

text \<open>
  \<open>gokzg4844.Context\<close> is the commitment scheme of an external library, used through
  two fallible operations; their last argument is the number of goroutines.
\<close>

record Context =
  BlobToKZGCommitment :: "Blob \<Rightarrow> nat \<Rightarrow> error + KZGCommitment"
  ComputeBlobKZGProof :: "Blob \<Rightarrow> KZGCommitment \<Rightarrow> nat \<Rightarrow> error + KZGProof"

text \<open>
  \<open>ComputeCommitmentsAndProofs\<close> has four named results. A slice result is
  \<open>None\<close> for \<open>nil\<close>; the error result is \<open>None\<close> for \<open>nil\<close>. The three slices are
  allocated with \<open>make\<close> (zero arrays) and slot \<open>i\<close> is stored in iteration \<open>i\<close> of the
  \<open>range\<close> loop.
\<close>

type_synonym ccap_result =
  "KZGCommitment list option \<times> Hash list option \<times> KZGProof list option \<times> error option"

fun ccap_loop :: "sha256 \<Rightarrow> Context \<Rightarrow> nat \<Rightarrow> Blobs \<Rightarrow>
    KZGCommitment list \<Rightarrow> Hash list \<Rightarrow> KZGProof list \<Rightarrow> ccap_result" where
  "ccap_loop sum256 cryptoCtx i [] commitments versionedHashes proofs =
     (Some commitments, Some versionedHashes, Some proofs, None)"
| "ccap_loop sum256 cryptoCtx i (blob # rest) commitments versionedHashes proofs =
     (case BlobToKZGCommitment cryptoCtx blob 1 of
        Inl err \<Rightarrow>
          (None, None, None,
           Some (Errorf ''could not convert blob to commitment: %v'' [ArgError err]))
      | Inr commitment \<Rightarrow>
          (case ComputeBlobKZGProof cryptoCtx blob commitment 1 of
             Inl err \<Rightarrow>
               (None, None, None,
                Some (Errorf ''could not compute proof for blob: %v'' [ArgError err]))
           | Inr prf \<Rightarrow>
               ccap_loop sum256 cryptoCtx (i + 1) rest
                 (commitments[i := commitment])
                 (versionedHashes[i := KZGToVersionedHash sum256 commitment])
                 (proofs[i := prf])))"

definition ComputeCommitmentsAndProofs :: "sha256 \<Rightarrow> Context \<Rightarrow> Blobs \<Rightarrow> ccap_result" where
  "ComputeCommitmentsAndProofs sum256 cryptoCtx blobs =
     ccap_loop sum256 cryptoCtx 0 blobs
       (replicate (length blobs) (replicate 48 0))
       (replicate (length blobs) (replicate 32 0))
       (replicate (length blobs) (replicate 48 0))"

record BlobTxWrapData =
  Blobs :: Blobs
  Commitments :: "KZGCommitment list"
  Proofs :: "KZGProof list"

section \<open>helper/blobs.go: the deterministic blob synthesizer\<close>

text \<open>
  \<open>binary.BigEndian.PutUint64\<close> stores the most significant byte first. \<open>xs[lo:hi]\<close> is
  \<open>subslice\<close>; the builtin \<open>copy(dst, src)\<close> overwrites the first
  \<open>min (len dst) (len src)\<close> bytes of \<open>dst\<close>, and \<open>copy_into\<close> is that copy into the
  window \<open>blob[lo:hi]\<close> of a larger array.

  \<open>gokzg4844.BlsModulus\<close> is a \<open>[32]byte\<close> constant of the external library: it is the
  parameter \<open>BlsModulus\<close> of the functions below.
\<close>

definition PutUint64 :: "uint64 \<Rightarrow> byte list" where
  "PutUint64 v =
     [ucast (drop_bit 56 v), ucast (drop_bit 48 v), ucast (drop_bit 40 v),
      ucast (drop_bit 32 v), ucast (drop_bit 24 v), ucast (drop_bit 16 v),
      ucast (drop_bit 8 v), ucast v]"

definition subslice :: "'a list \<Rightarrow> nat \<Rightarrow> nat \<Rightarrow> 'a list" where
  "subslice xs lo hi = take (hi - lo) (drop lo xs)"

definition copy_bytes :: "byte list \<Rightarrow> byte list \<Rightarrow> byte list" where
  "copy_bytes dst src =
     (let n = min (length dst) (length src) in take n src @ drop n dst)"

definition copy_into :: "byte list \<Rightarrow> nat \<Rightarrow> nat \<Rightarrow> byte list \<Rightarrow> byte list" where
  "copy_into blob lo hi src =
     take lo blob @ copy_bytes (subslice blob lo hi) src @ drop hi blob"

text \<open>
  The clamping loop of \<open>FillBlob\<close> over \<open>i = 0 .. 31\<close>; \<open>break\<close> returns the array as it
  is. The loop works in place on \<open>blob[chunkIdx * 32 + i]\<close>.
\<close>

function fill_clamp :: "byte list \<Rightarrow> nat \<Rightarrow> nat \<Rightarrow> Blob \<Rightarrow> Blob" where
  "fill_clamp BlsModulus chunkIdx i blob =
     (if i < 32 then
        (if blob ! (chunkIdx * 32 + i) < BlsModulus ! i then blob
         else if blob ! (chunkIdx * 32 + i) \<ge> BlsModulus ! i then
           (if BlsModulus ! i > 0
            then blob[chunkIdx * 32 + i := BlsModulus ! i - 1]
            else fill_clamp BlsModulus chunkIdx (i + 1)
                   (blob[chunkIdx * 32 + i := BlsModulus ! i]))
         else fill_clamp BlsModulus chunkIdx (i + 1) blob)
      else blob)"
  by pat_completeness auto
termination
  by (relation "measure (\<lambda>(m, c, i, b). 32 - i)") simp_all

function fill_loop :: "sha256 \<Rightarrow> byte list \<Rightarrow> nat \<Rightarrow> byte list \<Rightarrow> Blob \<Rightarrow> Blob" where
  "fill_loop sum256 BlsModulus chunkIdx currentHashed blob =
     (if chunkIdx < FieldElementsPerBlob then
        fill_loop sum256 BlsModulus (chunkIdx + 1) (sum256 currentHashed)
          (fill_clamp BlsModulus chunkIdx 0
             (copy_into blob (chunkIdx * 32) ((chunkIdx + 1) * 32) currentHashed))
      else blob)"
  by pat_completeness auto
termination
  by (relation "measure (\<lambda>(s, m, c, h, b). FieldElementsPerBlob - c)") simp_all

text \<open>
  \<open>FillBlob\<close> takes a pointer: \<open>None\<close> is \<open>nil\<close>. It returns an error or writes the
  array in place; \<open>Inr\<close> carries the array after the call.
\<close>

definition FillBlob :: "sha256 \<Rightarrow> byte list \<Rightarrow> BlobID \<Rightarrow> Blob option \<Rightarrow> error + Blob" where
  "FillBlob sum256 BlsModulus blobId blob =
     (case blob of
        None \<Rightarrow> Inl (ErrorsNew ''nil blob'')
      | Some b \<Rightarrow>
          if blobId = 0 then Inr b
          else Inr (fill_loop sum256 BlsModulus 0 (sum256 (PutUint64 blobId)) b))"

text \<open>
  \<open>VerifyBlob\<close> clamps a fresh \<open>[32]byte\<close> holding the current hash and compares it with
  the chunk; \<open>bytes.Equal\<close> is equality of the two byte sequences.
\<close>

function verify_clamp :: "byte list \<Rightarrow> nat \<Rightarrow> byte list \<Rightarrow> byte list" where
  "verify_clamp BlsModulus i expectedFieldElem =
     (if i < 32 then
        (if expectedFieldElem ! i < BlsModulus ! i then expectedFieldElem
         else if expectedFieldElem ! i \<ge> BlsModulus ! i then
           (if BlsModulus ! i > 0
            then expectedFieldElem[i := BlsModulus ! i - 1]
            else verify_clamp BlsModulus (i + 1) (expectedFieldElem[i := BlsModulus ! i]))
         else verify_clamp BlsModulus (i + 1) expectedFieldElem)
      else expectedFieldElem)"
  by pat_completeness auto
termination
  by (relation "measure (\<lambda>(m, i, e). 32 - i)") simp_all

function verify_loop :: "sha256 \<Rightarrow> byte list \<Rightarrow> nat \<Rightarrow> byte list \<Rightarrow> Blob \<Rightarrow> bool" where
  "verify_loop sum256 BlsModulus chunkIdx currentHashed blob =
     (if chunkIdx < FieldElementsPerBlob then
        (if subslice blob (chunkIdx * 32) ((chunkIdx + 1) * 32)
              \<noteq> verify_clamp BlsModulus 0 (copy_bytes (replicate 32 0) currentHashed)
         then False
         else verify_loop sum256 BlsModulus (chunkIdx + 1) (sum256 currentHashed) blob)
      else True)"
  by pat_completeness auto
termination
  by (relation "measure (\<lambda>(s, m, c, h, b). FieldElementsPerBlob - c)") simp_all

function verify_zero_loop :: "nat \<Rightarrow> Blob \<Rightarrow> bool" where
  "verify_zero_loop chunkIdx blob =
     (if chunkIdx < FieldElementsPerBlob then
        (if subslice blob (chunkIdx * 32) ((chunkIdx + 1) * 32) \<noteq> replicate 32 0
         then False
         else verify_zero_loop (chunkIdx + 1) blob)
      else True)"
  by pat_completeness auto
termination
  by (relation "measure (\<lambda>(c, b). FieldElementsPerBlob - c)") simp_all

declare fill_clamp.simps [simp del] fill_loop.simps [simp del]
  verify_clamp.simps [simp del] verify_loop.simps [simp del] verify_zero_loop.simps [simp del]

definition VerifyBlob :: "sha256 \<Rightarrow> byte list \<Rightarrow> BlobID \<Rightarrow> Blob option \<Rightarrow> bool \<times> error option" where
  "VerifyBlob sum256 BlsModulus blobId blob =
     (case blob of
        None \<Rightarrow> (False, Some (ErrorsNew ''nil blob''))
      | Some b \<Rightarrow>
          if blobId = 0 then (verify_zero_loop 0 b, None)
          else (verify_loop sum256 BlsModulus 0 (sum256 (PutUint64 blobId)) b, None))"

section \<open>suites/blobs/steps.go: test steps\<close>

text \<open>
  The step structs, with the fields of plain data. (\<open>LaunchClients\<close> also embeds an
  engine starter, and \<open>NewPayloads\<close> also holds a versioned-hash override, a payload
  customizer and the expected response; the methods below read none of them.)
\<close>

record LaunchClients =
  ClientCount :: uint64
  SkipConnectingToBootnode :: bool
  SkipAddingToCLMock :: bool

definition GetClientCount :: "LaunchClients \<Rightarrow> uint64" where
  "GetClientCount step =
     (let clientCount = ClientCount step;
          clientCount = (if clientCount = 0 then 1 else clientCount)
      in clientCount)"

record NewPayloads =
  PayloadCount :: uint64
  ExpectedIncludedBlobCount :: uint64
  ExpectedBlobs :: "BlobID list"
  GetPayloadDelay :: uint64
  Version :: uint64

definition GetPayloadCount :: "NewPayloads \<Rightarrow> uint64" where
  "GetPayloadCount step =
     (let payloadCount = PayloadCount step;
          payloadCount = (if payloadCount = 0 then 1 else payloadCount)
      in payloadCount)"

record SendBlobTransactions =
  BlobTransactionSendCount :: uint64
  BlobsPerTransaction :: uint64
  BlobTransactionMaxDataGasCost :: "int option"
  BlobTransactionGasFeeCap :: "int option"
  BlobTransactionGasTipCap :: "int option"
  ReplaceTransactions :: bool
  SkipVerificationFromNode :: bool
  AccountIndex :: uint64
  ClientIndex :: uint64

definition GetBlobsPerTransaction :: "SendBlobTransactions \<Rightarrow> uint64" where
  "GetBlobsPerTransaction step =
     (let blobCountPerTx = BlobsPerTransaction step;
          blobCountPerTx = (if blobCountPerTx = 0 then 1 else blobCountPerTx)
      in blobCountPerTx)"

subsection \<open>Payloads, transactions and the pool\<close>

text \<open>
  \<open>TxData\<close> is what the code reads from a decoded go-ethereum transaction: its type
  byte, hash, nonce and protocol-level blob hashes. A pool entry is a value of the
  \<open>Transaction\<close> interface: a \<open>TransactionWithBlobData\<close> (the signed transaction and a
  pointer to its wrap data) or some other implementation, kept with its type name.
  \<open>ExecutableData\<close> has the fields of the payload that the two functions below read.
\<close>

type_synonym Address = "byte list"

record TxData =
  TxType :: byte
  TxHash :: Hash
  TxNonce :: uint64
  TxBlobHashes :: "Hash list"

definition BlobTxType :: byte where
  "BlobTxType = 0x03"

record TransactionWithBlobData =
  Tx :: TxData
  BlobData :: "BlobTxWrapData option"

datatype Transaction =
  BlobTransaction TransactionWithBlobData
| OtherTransaction string

record TestBlobTxPool =
  PoolTransactions :: "Hash \<rightharpoonup> Transaction"
  HashesByIndex :: "uint64 \<rightharpoonup> Hash"
  CurrentBlobID :: BlobID
  CurrentTransactionIndex :: uint64

record ExecutableData =
  Timestamp :: uint64
  Transactions :: "byte list list"
  ExcessDataGas :: "uint64 option"
  DataGasUsed :: "uint64 option"

record BlobWrapData =
  VersionedHash :: Hash
  KZG :: KZGCommitment
  Blob :: Blob
  Proof :: KZGProof

text \<open>
  \<open>GetBlobDataInPayload\<close> walks the payload's transactions. Decoding
  (\<open>UnmarshalBinary\<close>) and sender recovery (\<open>signer.Sender\<close>) are go-ethereum's and
  may fail: they are the parameters \<open>unmarshal\<close> and \<open>sender\<close>. The two result slices
  grow by \<open>append\<close>. The \<open>Printf\<close> of the sender has no effect on the result.
\<close>

definition wrap_data_of :: "Hash list \<Rightarrow> KZGCommitment list \<Rightarrow> Blobs \<Rightarrow> KZGProof list
    \<Rightarrow> BlobWrapData list" where
  "wrap_data_of versionedHashes kzgs blobs proofs =
     map (\<lambda>i. \<lparr>VersionedHash = versionedHashes ! i, KZG = kzgs ! i,
                Blob = blobs ! i, Proof = proofs ! i\<rparr>)
         [0 ..< length versionedHashes]"

fun payload_loop :: "(byte list \<Rightarrow> error + TxData) \<Rightarrow> (TxData \<Rightarrow> error + Address) \<Rightarrow>
    TestBlobTxPool \<Rightarrow> byte list list \<Rightarrow> BlobWrapData list \<Rightarrow> TransactionWithBlobData list \<Rightarrow>
    error + (TransactionWithBlobData list \<times> BlobWrapData list)" where
  "payload_loop unmarshal sender pool [] blobDataInPayload blobTxsInPayload =
     Inr (blobTxsInPayload, blobDataInPayload)"
| "payload_loop unmarshal sender pool (binaryTx # rest) blobDataInPayload blobTxsInPayload =
     (case unmarshal binaryTx of
        Inl err \<Rightarrow> Inl err
      | Inr txData \<Rightarrow>
          if TxType txData \<noteq> BlobTxType
          then payload_loop unmarshal sender pool rest blobDataInPayload blobTxsInPayload
          else
            (case sender txData of
               Inl err \<Rightarrow> Inl err
             | Inr from_addr \<Rightarrow>
                 (case PoolTransactions pool (TxHash txData) of
                    Some (BlobTransaction blobTx) \<Rightarrow>
                      (case BlobData blobTx of
                         None \<Rightarrow> Inl (Errorf ''blob data is nil'' [])
                       | Some blobData \<Rightarrow>
                           if length (TxBlobHashes (Tx blobTx)) \<noteq> length (Commitments blobData)
                              \<or> length (Commitments blobData) \<noteq> length (Blobs blobData)
                              \<or> length (Blobs blobData) \<noteq> length (Proofs blobData)
                           then Inl (Errorf ''invalid blob wrap data'' [])
                           else payload_loop unmarshal sender pool rest
                                  (blobDataInPayload @
                                     wrap_data_of (TxBlobHashes (Tx blobTx)) (Commitments blobData)
                                       (Blobs blobData) (Proofs blobData))
                                  (blobTxsInPayload @ [blobTx]))
                  | Some (OtherTransaction type_name) \<Rightarrow>
                      Inl (Errorf ''could not find blob data in transaction %s, type=%T''
                             [ArgHash (TxHash txData), ArgType type_name])
                  | None \<Rightarrow>
                      Inl (Errorf ''could not find transaction %s in the pool''
                             [ArgHash (TxHash txData)]))))"

definition GetBlobDataInPayload :: "(byte list \<Rightarrow> error + TxData) \<Rightarrow> (TxData \<Rightarrow> error + Address) \<Rightarrow>
    TestBlobTxPool \<Rightarrow> ExecutableData \<Rightarrow>
    error + (TransactionWithBlobData list \<times> BlobWrapData list)" where
  "GetBlobDataInPayload unmarshal sender pool payload =
     payload_loop unmarshal sender pool (Transactions payload) [] []"

subsection \<open>Payload verification\<close>

text \<open>
  \<open>CalcExcessDataGas\<close>, \<open>GetDataGasPrice\<close> and \<open>DATA_GAS_PER_BLOB\<close> are declared in a file
  of the package that is not part of the sources at hand: they are the fields of the
  parameter \<open>gas\<close>. For each blob transaction \<open>VerifyPayload\<close> asks the test engine for
  the receipt and states two expectations on it; the model returns these requests, in
  order, next to the error result (\<open>None\<close> is \<open>nil\<close>).
\<close>

record BlobGas =
  CalcExcessDataGas :: "uint64 \<Rightarrow> uint64 \<Rightarrow> uint64"
  GetDataGasPrice :: "uint64 \<Rightarrow> uint64"
  DATA_GAS_PER_BLOB :: uint64

record ReceiptExpectation =
  ReceiptOf :: Hash
  ExpectDataGasUsed :: uint64
  ExpectDataGasPrice :: uint64

fun receipts_loop :: "BlobGas \<Rightarrow> uint64 \<Rightarrow> TransactionWithBlobData list \<Rightarrow> uint64 \<Rightarrow>
    ReceiptExpectation list \<Rightarrow> uint64 \<times> ReceiptExpectation list" where
  "receipts_loop gas expectedDataGasPrice [] totalBlobCount asked = (totalBlobCount, asked)"
| "receipts_loop gas expectedDataGasPrice (tx # rest) totalBlobCount asked =
     (let blobCount = (of_nat (length (TxBlobHashes (Tx tx))) :: uint64)
      in receipts_loop gas expectedDataGasPrice rest (totalBlobCount + blobCount)
           (asked @ [\<lparr>ReceiptOf = TxHash (Tx tx),
                       ExpectDataGasUsed = blobCount * DATA_GAS_PER_BLOB gas,
                       ExpectDataGasPrice = expectedDataGasPrice\<rparr>]))"

definition VerifyPayload :: "BlobGas \<Rightarrow> NewPayloads \<Rightarrow> ForkConfig \<Rightarrow>
    TransactionWithBlobData list \<Rightarrow> ExecutableData \<Rightarrow> ExecutableData option \<Rightarrow>
    ReceiptExpectation list \<times> error option" where
  "VerifyPayload gas step forkConfig blobTxsInPayload payload previousPayload =
     (let parentExcessDataGas =
            (case previousPayload of
               None \<Rightarrow> 0
             | Some prev \<Rightarrow> (case ExcessDataGas prev of None \<Rightarrow> 0 | Some v \<Rightarrow> v));
          parentDataGasUsed =
            (case previousPayload of
               None \<Rightarrow> 0
             | Some prev \<Rightarrow> (case DataGasUsed prev of None \<Rightarrow> 0 | Some v \<Rightarrow> v));
          expectedExcessDataGas = CalcExcessDataGas gas parentExcessDataGas parentDataGasUsed
      in
      if IsCancun forkConfig (Timestamp payload) then
        (case ExcessDataGas payload of
           None \<Rightarrow> ([], Some (Errorf ''payload contains nil excessDataGas'' []))
         | Some excessDataGas \<Rightarrow>
             (case DataGasUsed payload of
                None \<Rightarrow> ([], Some (Errorf ''payload contains nil dataGasUsed'' []))
              | Some dataGasUsed \<Rightarrow>
                  if excessDataGas \<noteq> expectedExcessDataGas
                  then ([], Some (Errorf
                          ''payload contains incorrect excessDataGas: want 0x%x, have 0x%x''
                          [ArgUint64 expectedExcessDataGas, ArgUint64 excessDataGas]))
                  else
                    (case receipts_loop gas (GetDataGasPrice gas expectedExcessDataGas)
                            blobTxsInPayload 0 [] of
                       (totalBlobCount, asked) \<Rightarrow>
                         if totalBlobCount \<noteq> ExpectedIncludedBlobCount step
                         then (asked, Some (Errorf ''expected %d blobs in transactions, got %d''
                                 [ArgUint64 (ExpectedIncludedBlobCount step),
                                  ArgUint64 totalBlobCount]))
                         else (asked, None))))
      else if ExcessDataGas payload \<noteq> None
        then ([], Some (Errorf ''payload contains non-nil excessDataGas pre-fork'' []))
      else if DataGasUsed payload \<noteq> None
        then ([], Some (Errorf ''payload contains non-nil dataGasUsed pre-fork'' []))
      else ([], None))"

section \<open>Predicates used in the statements\<close>

text \<open>
  \<open>blob_ok\<close>: both operations of the crypto context succeed on the blob.
\<close>

definition blob_ok :: "Context \<Rightarrow> Blob \<Rightarrow> bool" where
  "blob_ok cryptoCtx blob =
     (case BlobToKZGCommitment cryptoCtx blob 1 of
        Inl err \<Rightarrow> False
      | Inr commitment \<Rightarrow>
          (case ComputeBlobKZGProof cryptoCtx blob commitment 1 of
             Inl err \<Rightarrow> False
           | Inr prf \<Rightarrow> True))"

text \<open>
  \<open>lengths_agree\<close> is the length test \<open>GetBlobDataInPayload\<close> makes on a pool entry.
  \<open>matched\<close>: the payload transaction decodes and, when it is blob-typed, its sender is
  recovered and the pool holds it as a transaction with wrap data.
  \<open>length_mismatch\<close>: the payload transaction is blob-typed and its pool entry fails the
  length test.
\<close>

definition lengths_agree :: "TransactionWithBlobData \<Rightarrow> bool" where
  "lengths_agree blobTx =
     (case BlobData blobTx of
        None \<Rightarrow> False
      | Some blobData \<Rightarrow>
          length (TxBlobHashes (Tx blobTx)) = length (Commitments blobData)
          \<and> length (Commitments blobData) = length (Blobs blobData)
          \<and> length (Blobs blobData) = length (Proofs blobData))"

definition matched :: "(byte list \<Rightarrow> error + TxData) \<Rightarrow> (TxData \<Rightarrow> error + Address) \<Rightarrow>
    TestBlobTxPool \<Rightarrow> byte list \<Rightarrow> bool" where
  "matched unmarshal sender pool binaryTx =
     (case unmarshal binaryTx of
        Inl err \<Rightarrow> False
      | Inr txData \<Rightarrow>
          TxType txData \<noteq> BlobTxType \<or>
          (case sender txData of
             Inl err \<Rightarrow> False
           | Inr from_addr \<Rightarrow>
               (case PoolTransactions pool (TxHash txData) of
                  Some (BlobTransaction blobTx) \<Rightarrow> BlobData blobTx \<noteq> None
                | Some (OtherTransaction type_name) \<Rightarrow> False
                | None \<Rightarrow> False)))"

definition length_mismatch :: "(byte list \<Rightarrow> error + TxData) \<Rightarrow> TestBlobTxPool \<Rightarrow> byte list \<Rightarrow> bool" where
  "length_mismatch unmarshal pool binaryTx =
     (case unmarshal binaryTx of
        Inl err \<Rightarrow> False
      | Inr txData \<Rightarrow>
          TxType txData = BlobTxType \<and>
          (case PoolTransactions pool (TxHash txData) of
             Some (BlobTransaction blobTx) \<Rightarrow> \<not> lengths_agree blobTx
           | Some (OtherTransaction type_name) \<Rightarrow> False
           | None \<Rightarrow> False))"

text \<open>
  \<open>be_nat\<close>: a byte sequence read as a big-endian number, the first byte being the most
  significant.
\<close>

fun be_nat :: "byte list \<Rightarrow> nat" where
  "be_nat [] = 0"
| "be_nat (b # bs) = unat b * 256 ^ length bs + be_nat bs"

section \<open>Concrete inputs\<close>

text \<open>
  Values at which the theorems below are instantiated. The operations of the external
  libraries are parameters of the model; \<open>sample_sum256\<close> (for \<open>sha256.Sum256\<close>),
  \<open>sample_ctx\<close> (for the crypto context), \<open>sample_unmarshal\<close> and \<open>sample_sender\<close> (for
  go-ethereum's decoding and sender recovery) and \<open>sample_gas\<close> (for the blob gas
  functions) are simple functions of the same types. No theorem depends on which
  functions of these types are used. \<open>sample_unmarshal\<close> reads a two-byte encoding
  \<open>[type, n]\<close> as the transaction with hash \<open>n, ..., n\<close>; \<open>sample_ctx\<close> rejects a blob
  whose first byte is \<open>0xFF\<close>.
\<close>

definition sample_sum256 :: sha256 where
  "sample_sum256 bs = map (\<lambda>i. of_nat i + sum_list bs) [0 ..< 32]"

definition sample_forks :: ForkConfig where
  "sample_forks = \<lparr>ShanghaiTimestamp = Some 0, CancunTimestamp = Some 100,
                    PragueTimestamp = Some 200\<rparr>"

definition sample_NewPayloads :: NewPayloads where
  "sample_NewPayloads = \<lparr>PayloadCount = 0, ExpectedIncludedBlobCount = 3,
     ExpectedBlobs = [0, 1, 2], GetPayloadDelay = 0, Version = 0\<rparr>"

definition sample_LaunchClients :: LaunchClients where
  "sample_LaunchClients = \<lparr>ClientCount = 0, SkipConnectingToBootnode = False,
     SkipAddingToCLMock = False\<rparr>"

definition sample_SendBlobTransactions :: SendBlobTransactions where
  "sample_SendBlobTransactions = \<lparr>BlobTransactionSendCount = 3, BlobsPerTransaction = 0,
     BlobTransactionMaxDataGasCost = Some 1, BlobTransactionGasFeeCap = None,
     BlobTransactionGasTipCap = None, ReplaceTransactions = False,
     SkipVerificationFromNode = False, AccountIndex = 0, ClientIndex = 0\<rparr>"

definition zero_blob :: Blob where
  "zero_blob = replicate 131072 0"

definition bad_blob :: Blob where
  "bad_blob = replicate 131072 0xFF"

definition sample_ctx :: Context where
  "sample_ctx = \<lparr>
     BlobToKZGCommitment = (\<lambda>blob n.
        if take 1 blob = [0xFF] then Inl (ErrorsNew ''scalar is not canonical'')
        else Inr (take 48 blob)),
     ComputeBlobKZGProof = (\<lambda>blob commitment n.
        if take 1 blob = [0xFE] then Inl (ErrorsNew ''scalar is not canonical'')
        else Inr (rev commitment))\<rparr>"

definition sample_gas :: BlobGas where
  "sample_gas = \<lparr>CalcExcessDataGas = (\<lambda>excess used.
        if excess + used < 393216 then 0 else excess + used - 393216),
     GetDataGasPrice = (\<lambda>excess. 1),
     DATA_GAS_PER_BLOB = 0x20000\<rparr>"

definition pre_fork_payload :: ExecutableData where
  "pre_fork_payload = \<lparr>Timestamp = 50, Transactions = [], ExcessDataGas = None,
     DataGasUsed = None\<rparr>"

definition sample_unmarshal :: "byte list \<Rightarrow> error + TxData" where
  "sample_unmarshal binaryTx =
     (case binaryTx of
        [t, n] \<Rightarrow> Inr \<lparr>TxType = t, TxHash = replicate 32 n, TxNonce = ucast n,
                       TxBlobHashes = (if t = BlobTxType then [replicate 32 0] else [])\<rparr>
      | _ \<Rightarrow> Inl (ErrorsNew ''transaction type not supported''))"

definition sample_sender :: "TxData \<Rightarrow> error + Address" where
  "sample_sender txData = Inr (replicate 20 0)"

definition sample_wrap :: BlobTxWrapData where
  "sample_wrap = \<lparr>Blobs = [zero_blob], Commitments = [replicate 48 0],
                    Proofs = [replicate 48 0]\<rparr>"

definition sample_blobTx :: TransactionWithBlobData where
  "sample_blobTx = \<lparr>Tx = \<lparr>TxType = BlobTxType, TxHash = replicate 32 7, TxNonce = 7,
                           TxBlobHashes = [replicate 32 0]\<rparr>,
     BlobData = Some sample_wrap\<rparr>"

definition short_blobTx :: TransactionWithBlobData where
  "short_blobTx = \<lparr>Tx = \<lparr>TxType = BlobTxType, TxHash = replicate 32 8, TxNonce = 8,
                          TxBlobHashes = [replicate 32 0, replicate 32 0]\<rparr>,
     BlobData = Some sample_wrap\<rparr>"

definition sample_pool :: TestBlobTxPool where
  "sample_pool = \<lparr>PoolTransactions = [replicate 32 7 \<mapsto> BlobTransaction sample_blobTx,
                                       replicate 32 8 \<mapsto> BlobTransaction short_blobTx],
     HashesByIndex = [0 \<mapsto> replicate 32 7, 1 \<mapsto> replicate 32 8], CurrentBlobID = 3,
     CurrentTransactionIndex = 2\<rparr>"

definition sample_payload :: ExecutableData where
  "sample_payload = \<lparr>Timestamp = 150, Transactions = [[0x03, 7]], ExcessDataGas = Some 0,
     DataGasUsed = Some 0x20000\<rparr>"

definition mismatch_payload :: ExecutableData where
  "mismatch_payload = \<lparr>Timestamp = 150, Transactions = [[0x03, 7], [0x03, 8]],
     ExcessDataGas = Some 0, DataGasUsed = Some 0x60000\<rparr>"

text \<open>
  The value of \<open>gokzg4844.BlsModulus\<close>: the order of the BLS12-381 scalar field,
  \<open>0x73eda753299d7d483339d80809a1d80553bda402fffe5bfeffffffff00000001\<close>, most significant
  byte first.
\<close>

definition BLS_MODULUS :: "byte list" where
  "BLS_MODULUS =
     [0x73, 0xed, 0xa7, 0x53, 0x29, 0x9d, 0x7d, 0x48, 0x33, 0x39, 0xd8, 0x08, 0x09, 0xa1, 0xd8, 0x05,
      0x53, 0xbd, 0xa4, 0x02, 0xff, 0xfe, 0x5b, 0xfe, 0xff, 0xff, 0xff, 0xff, 0x00, 0x00, 0x00, 0x01]"

section \<open>Blob identifier lists\<close>

text \<open>
  What the two loops of \<open>GetBlobListByIndex\<close> compute, for every pair of identifiers:
  the ascending branch counts up from \<open>startIndex\<close>, the other branch counts down from
  \<open>endIndex\<close>.
\<close>

lemma take_Suc_update: "k < length l \<Longrightarrow> take (Suc k) (l[k := v]) = take k l @ [v]"
  by (simp add: take_Suc_conv_app_nth)

lemma asc_loop_eq:
  "unat i \<le> unat count \<Longrightarrow> length l = unat count \<Longrightarrow>
   asc_loop s count i l = take (unat i) l @ map (\<lambda>j. s + of_nat j) [unat i ..< unat count]"
proof (induction s count i l rule: asc_loop.induct)
  case (1 s count i l)
  show ?case
  proof (cases "i < count")
    case False
    then have "unat i = unat count" using "1.prems" by (simp add: word_less_nat_alt)
    with False "1.prems" show ?thesis by (simp add: asc_loop.simps)
  next
    case True
    then have lt: "unat i < unat count" by (simp add: word_less_nat_alt)
    have suc: "unat (i + 1) = Suc (unat i)" using True by (rule unat_succ_less)
    have "asc_loop s count i l = asc_loop s count (i + 1) (l[unat i := s + i])"
      using True by (subst asc_loop.simps) simp
    also have "\<dots> = take (unat (i + 1)) (l[unat i := s + i])
                        @ map (\<lambda>j. s + of_nat j) [unat (i + 1) ..< unat count]"
      using "1.IH" [OF True] lt suc "1.prems" by simp
    also have "\<dots> = take (unat i) l @ map (\<lambda>j. s + of_nat j) [unat i ..< unat count]"
      using lt "1.prems" by (simp add: suc take_Suc_update upt_conv_Cons)
    finally show ?thesis .
  qed
qed

lemma desc_loop_eq:
  "unat i \<le> unat count \<Longrightarrow> length l = unat count \<Longrightarrow>
   desc_loop e count i l = take (unat i) l @ map (\<lambda>j. e - of_nat j) [unat i ..< unat count]"
proof (induction e count i l rule: desc_loop.induct)
  case (1 e count i l)
  show ?case
  proof (cases "i < count")
    case False
    then have "unat i = unat count" using "1.prems" by (simp add: word_less_nat_alt)
    with False "1.prems" show ?thesis by (simp add: desc_loop.simps)
  next
    case True
    then have lt: "unat i < unat count" by (simp add: word_less_nat_alt)
    have suc: "unat (i + 1) = Suc (unat i)" using True by (rule unat_succ_less)
    have "desc_loop e count i l = desc_loop e count (i + 1) (l[unat i := e - i])"
      using True by (subst desc_loop.simps) simp
    also have "\<dots> = take (unat (i + 1)) (l[unat i := e - i])
                        @ map (\<lambda>j. e - of_nat j) [unat (i + 1) ..< unat count]"
      using "1.IH" [OF True] lt suc "1.prems" by simp
    also have "\<dots> = take (unat i) l @ map (\<lambda>j. e - of_nat j) [unat i ..< unat count]"
      using lt "1.prems" by (simp add: suc take_Suc_update upt_conv_Cons)
    finally show ?thesis .
  qed
qed

lemma GetBlobListByIndex_eq:
  "GetBlobListByIndex a b =
     (if b > a then map (\<lambda>j. a + of_nat j) [0 ..< unat (b - a + 1)]
      else map (\<lambda>j. b - of_nat j) [0 ..< unat (a - b + 1)])"
  by (simp add: GetBlobListByIndex_def Let_def asc_loop_eq desc_loop_eq)

text \<open>
  Claim C1. \<open>GetBlobListByIndex(a, b)\<close> is to return the ascending sequence
  \<open>[a, ..., b]\<close> when \<open>a < b\<close> and the descending sequence \<open>[a, a-1, ..., b]\<close> when
  \<open>a > b\<close>, with \<open>|a-b|+1\<close> identifiers in both cases. The code does so when \<open>a < b\<close>.
  When \<open>a > b\<close> its loop counts down from \<open>endIndex\<close> instead of \<open>startIndex\<close>: for
  \<open>(2, 0)\<close>, the call of the "Versioned Hashes, Out of Order" scenarios, it returns
  \<open>[0, 2^64 - 1, 2^64 - 2]\<close> and not \<open>[2, 1, 0]\<close>; for \<open>(5, 3)\<close> it returns \<open>[3, 2, 1]\<close>
  and not \<open>[5, 4, 3]\<close>.
\<close>

theorem GetBlobListByIndex_descending_from_end:
  "GetBlobListByIndex 2 0 = [0, 0xFFFFFFFFFFFFFFFF, 0xFFFFFFFFFFFFFFFE]
   \<and> GetBlobListByIndex 5 3 = [3, 2, 1]
   \<and> GetBlobListByIndex 0 2 = [0, 1, 2]"
  by code_simp

section \<open>Versioned hashes\<close>

lemma sample_sum256_ok: "is_sum256 sample_sum256"
  by (simp add: is_sum256_def sample_sum256_def)

text \<open>
  Claim C7. For every commitment \<open>c\<close>, \<open>ComputeVersionedHash(c)\<close> has 32 bytes, its
  first byte is the version constant \<open>0x01\<close>, and its bytes 1 to 31 are those of
  \<open>sha256(c)\<close>. The hash is any function that returns 32 bytes.
\<close>

theorem ComputeVersionedHash_layout:
  assumes "is_sum256 sum256"
  shows "length (ComputeVersionedHash sum256 c) = 32
       \<and> ComputeVersionedHash sum256 c ! 0 = 0x01
       \<and> (\<forall>i \<in> {1 .. 31}. ComputeVersionedHash sum256 c ! i = sum256 c ! i)"
  using assms
  by (simp add: is_sum256_def ComputeVersionedHash_def KZGToVersionedHash_def
      BlobCommitmentVersionKZG_def)

theorem ComputeVersionedHash_layout_witness:
  "length (ComputeVersionedHash sample_sum256 (replicate 48 0)) = 32
   \<and> ComputeVersionedHash sample_sum256 (replicate 48 0) ! 0 = 0x01
   \<and> ComputeVersionedHash sample_sum256 (replicate 48 0) ! 31
       = sample_sum256 (replicate 48 0) ! 31"
  using ComputeVersionedHash_layout [OF sample_sum256_ok, of "replicate 48 0"]
  by simp

section \<open>Fork and version policy\<close>

lemma IsShanghai_mono: "t1 \<le> t2 \<Longrightarrow> IsShanghai f t1 \<Longrightarrow> IsShanghai f t2"
  by (auto simp: IsShanghai_def word_le_def split: option.splits)

lemma IsCancun_mono: "t1 \<le> t2 \<Longrightarrow> IsCancun f t1 \<Longrightarrow> IsCancun f t2"
  by (auto simp: IsCancun_def word_le_def split: option.splits)

lemma IsPrague_mono: "t1 \<le> t2 \<Longrightarrow> IsPrague f t1 \<Longrightarrow> IsPrague f t2"
  by (auto simp: IsPrague_def word_le_def split: option.splits)

text \<open>
  Claim C8. The payload API version is monotone in the timestamp: for \<open>t1 \<le> t2\<close>,
  \<open>GetPayloadVersion(t1) \<le> GetPayloadVersion(t2)\<close>, and the same for
  \<open>NewPayloadVersion\<close>. This holds for every fork configuration, so in particular for
  those whose activation timestamps are ordered.
\<close>

theorem PayloadVersion_monotone:
  assumes "t1 \<le> t2"
  shows "GetPayloadVersion f t1 \<le> GetPayloadVersion f t2
       \<and> NewPayloadVersion f t1 \<le> NewPayloadVersion f t2"
  using IsShanghai_mono [OF assms, of f] IsCancun_mono [OF assms, of f]
    IsPrague_mono [OF assms, of f]
  by (auto simp: GetPayloadVersion_def NewPayloadVersion_def)

theorem PayloadVersion_monotone_witness:
  "(50 :: uint64) \<le> 150
   \<and> GetPayloadVersion sample_forks 50 = 2
   \<and> GetPayloadVersion sample_forks 150 = 3
   \<and> GetPayloadVersion sample_forks 50 \<le> GetPayloadVersion sample_forks 150
   \<and> NewPayloadVersion sample_forks 50 \<le> NewPayloadVersion sample_forks 150"
proof -
  have h: "(50 :: uint64) \<le> 150" by simp
  show ?thesis
    using h PayloadVersion_monotone [OF h, of sample_forks]
    by (simp add: sample_forks_def GetPayloadVersion_def IsPrague_def IsCancun_def
        IsShanghai_def)
qed

section \<open>Step parameters\<close>

text \<open>
  Claim C10. A zero count defaults to one: a \<open>NewPayloads\<close> step with
  \<open>PayloadCount = 0\<close> has \<open>GetPayloadCount() = 1\<close>, a \<open>LaunchClients\<close> step with
  \<open>ClientCount = 0\<close> has \<open>GetClientCount() = 1\<close>, a \<open>SendBlobTransactions\<close> step with
  \<open>BlobsPerTransaction = 0\<close> has \<open>GetBlobsPerTransaction() = 1\<close>; a nonzero value \<open>n\<close> is
  returned unchanged.
\<close>

theorem count_defaults_to_one:
  "GetPayloadCount (np\<lparr>PayloadCount := 0\<rparr>) = 1
   \<and> (n \<noteq> 0 \<longrightarrow> GetPayloadCount (np\<lparr>PayloadCount := n\<rparr>) = n)
   \<and> GetClientCount (lc\<lparr>ClientCount := 0\<rparr>) = 1
   \<and> (n \<noteq> 0 \<longrightarrow> GetClientCount (lc\<lparr>ClientCount := n\<rparr>) = n)
   \<and> GetBlobsPerTransaction (sb\<lparr>BlobsPerTransaction := 0\<rparr>) = 1
   \<and> (n \<noteq> 0 \<longrightarrow> GetBlobsPerTransaction (sb\<lparr>BlobsPerTransaction := n\<rparr>) = n)"
  by (simp add: GetPayloadCount_def GetClientCount_def GetBlobsPerTransaction_def)

theorem count_defaults_to_one_witness:
  "(6 :: uint64) \<noteq> 0
   \<and> GetPayloadCount sample_NewPayloads = 1
   \<and> GetPayloadCount (sample_NewPayloads\<lparr>PayloadCount := 6\<rparr>) = 6
   \<and> GetClientCount sample_LaunchClients = 1
   \<and> GetClientCount (sample_LaunchClients\<lparr>ClientCount := 6\<rparr>) = 6
   \<and> GetBlobsPerTransaction sample_SendBlobTransactions = 1
   \<and> GetBlobsPerTransaction (sample_SendBlobTransactions\<lparr>BlobsPerTransaction := 6\<rparr>) = 6"
  using count_defaults_to_one [of sample_NewPayloads 6 sample_LaunchClients
      sample_SendBlobTransactions]
  by (simp add: sample_NewPayloads_def sample_LaunchClients_def
      sample_SendBlobTransactions_def)

section \<open>Commitments and proofs\<close>

lemma take1_zero: "take (Suc 0) zero_blob = [0]" "take (Suc 0) bad_blob = [0xFF]"
  "take 48 zero_blob = replicate 48 0"
  by (simp_all add: zero_blob_def bad_blob_def)

lemma ccap_loop_commit_fails:
  "k < length bs \<Longrightarrow> \<forall>j<k. blob_ok ctx (bs ! j) \<Longrightarrow>
   BlobToKZGCommitment ctx (bs ! k) 1 = Inl err \<Longrightarrow>
   ccap_loop S ctx i bs cs hs ps =
     (None, None, None, Some (Errorf ''could not convert blob to commitment: %v'' [ArgError err]))"
proof (induction bs arbitrary: k i cs hs ps)
  case Nil
  then show ?case by simp
next
  case (Cons b bs)
  show ?case
  proof (cases k)
    case 0
    with Cons.prems show ?thesis by simp
  next
    case (Suc k')
    from Cons.prems Suc have ok: "blob_ok ctx b" by auto
    from Cons.prems Suc have rest: "k' < length bs" "\<forall>j<k'. blob_ok ctx (bs ! j)"
      "BlobToKZGCommitment ctx (bs ! k') 1 = Inl err" by auto
    from ok show ?thesis
      by (auto simp: blob_ok_def Cons.IH [OF rest] split: sum.splits)
  qed
qed

lemma ccap_loop_proof_fails:
  "k < length bs \<Longrightarrow> \<forall>j<k. blob_ok ctx (bs ! j) \<Longrightarrow>
   BlobToKZGCommitment ctx (bs ! k) 1 = Inr c \<Longrightarrow>
   ComputeBlobKZGProof ctx (bs ! k) c 1 = Inl err \<Longrightarrow>
   ccap_loop S ctx i bs cs hs ps =
     (None, None, None, Some (Errorf ''could not compute proof for blob: %v'' [ArgError err]))"
proof (induction bs arbitrary: k i cs hs ps)
  case Nil
  then show ?case by simp
next
  case (Cons b bs)
  show ?case
  proof (cases k)
    case 0
    with Cons.prems show ?thesis by simp
  next
    case (Suc k')
    from Cons.prems Suc have ok: "blob_ok ctx b" by auto
    from Cons.prems Suc have rest: "k' < length bs" "\<forall>j<k'. blob_ok ctx (bs ! j)"
      "BlobToKZGCommitment ctx (bs ! k') 1 = Inr c"
      "ComputeBlobKZGProof ctx (bs ! k') c 1 = Inl err" by auto
    from ok show ?thesis
      by (auto simp: blob_ok_def Cons.IH [OF rest] split: sum.splits)
  qed
qed

text \<open>
  Claim C3, as the code has it. When the commitment or the proof computation fails for
  the blob at index \<open>i\<close>, and succeeds for every blob before it,
  \<open>ComputeCommitmentsAndProofs\<close> returns an error made of a fixed message for the
  stage that failed and the underlying error. The index is not part of the error.
\<close>

theorem ComputeCommitmentsAndProofs_first_failure:
  assumes "i < length blobs" and "\<forall>j<i. blob_ok cryptoCtx (blobs ! j)"
  shows "(BlobToKZGCommitment cryptoCtx (blobs ! i) 1 = Inl err \<longrightarrow>
            ComputeCommitmentsAndProofs sum256 cryptoCtx blobs =
              (None, None, None,
               Some (Errorf ''could not convert blob to commitment: %v'' [ArgError err])))
       \<and> (BlobToKZGCommitment cryptoCtx (blobs ! i) 1 = Inr commitment
            \<and> ComputeBlobKZGProof cryptoCtx (blobs ! i) commitment 1 = Inl err \<longrightarrow>
            ComputeCommitmentsAndProofs sum256 cryptoCtx blobs =
              (None, None, None,
               Some (Errorf ''could not compute proof for blob: %v'' [ArgError err])))"
  using assms
  by (simp add: ComputeCommitmentsAndProofs_def ccap_loop_commit_fails ccap_loop_proof_fails)

theorem ComputeCommitmentsAndProofs_first_failure_witness:
  "(1 :: nat) < length [zero_blob, bad_blob]
   \<and> blob_ok sample_ctx ([zero_blob, bad_blob] ! 0)
   \<and> BlobToKZGCommitment sample_ctx ([zero_blob, bad_blob] ! 1) 1
        = Inl (ErrorsNew ''scalar is not canonical'')
   \<and> ComputeCommitmentsAndProofs sample_sum256 sample_ctx [zero_blob, bad_blob] =
     (None, None, None,
      Some (Errorf ''could not convert blob to commitment: %v''
              [ArgError (ErrorsNew ''scalar is not canonical'')]))"
proof -
  have h1: "(1 :: nat) < length [zero_blob, bad_blob]" by simp
  have ok: "blob_ok sample_ctx ([zero_blob, bad_blob] ! 0)"
    by (simp add: blob_ok_def sample_ctx_def take1_zero)
  then have h2: "\<forall>j<1. blob_ok sample_ctx ([zero_blob, bad_blob] ! j)" by simp
  have h3: "BlobToKZGCommitment sample_ctx ([zero_blob, bad_blob] ! 1) 1
        = Inl (ErrorsNew ''scalar is not canonical'')"
    by (simp add: sample_ctx_def take1_zero)
  show ?thesis
    using h1 ok h3 ComputeCommitmentsAndProofs_first_failure [OF h1 h2,
        of "ErrorsNew ''scalar is not canonical''" sample_sum256]
    by simp
qed

text \<open>
  Claim C3 as stated fails: a failure at index 0 and a failure at index 1 produce the
  same error value, so the error does not tell the index.
\<close>

theorem ComputeCommitmentsAndProofs_error_without_index:
  "BlobToKZGCommitment sample_ctx ([bad_blob] ! 0) 1
     = Inl (ErrorsNew ''scalar is not canonical'')
   \<and> blob_ok sample_ctx ([zero_blob, bad_blob] ! 0)
   \<and> BlobToKZGCommitment sample_ctx ([zero_blob, bad_blob] ! 1) 1
     = Inl (ErrorsNew ''scalar is not canonical'')
   \<and> ComputeCommitmentsAndProofs sample_sum256 sample_ctx [bad_blob] =
     (None, None, None,
      Some (Errorf ''could not convert blob to commitment: %v''
              [ArgError (ErrorsNew ''scalar is not canonical'')]))
   \<and> ComputeCommitmentsAndProofs sample_sum256 sample_ctx [zero_blob, bad_blob] =
     (None, None, None,
      Some (Errorf ''could not convert blob to commitment: %v''
              [ArgError (ErrorsNew ''scalar is not canonical'')]))"
  by (simp add: ComputeCommitmentsAndProofs_def sample_ctx_def blob_ok_def take1_zero)

lemma ccap_loop_cases:
  assumes "length cs = i + length bs" "length hs = i + length bs" "length ps = i + length bs"
  shows "(\<exists>e. ccap_loop S ctx i bs cs hs ps = (None, None, None, Some e))
       \<or> (\<exists>cs' hs' ps'. ccap_loop S ctx i bs cs hs ps = (Some cs', Some hs', Some ps', None)
            \<and> length cs' = i + length bs \<and> length hs' = i + length bs
            \<and> length ps' = i + length bs
            \<and> (\<forall>j<i. cs' ! j = cs ! j \<and> hs' ! j = hs ! j \<and> ps' ! j = ps ! j)
            \<and> (\<forall>j<length bs.
                  BlobToKZGCommitment ctx (bs ! j) 1 = Inr (cs' ! (i + j))
                  \<and> ComputeBlobKZGProof ctx (bs ! j) (cs' ! (i + j)) 1 = Inr (ps' ! (i + j))
                  \<and> hs' ! (i + j) = KZGToVersionedHash S (cs' ! (i + j))))"
  using assms
proof (induction bs arbitrary: i cs hs ps)
  case Nil
  then show ?case by simp
next
  case (Cons b bs)
  show ?case
  proof (cases "BlobToKZGCommitment ctx b 1")
    case (Inl e)
    then show ?thesis by simp
  next
    case c: (Inr c)
    show ?thesis
    proof (cases "ComputeBlobKZGProof ctx b c 1")
      case (Inl e)
      with c show ?thesis by simp
    next
      case p: (Inr p)
      let ?cs = "cs[i := c]" and ?hs = "hs[i := KZGToVersionedHash S c]" and ?ps = "ps[i := p]"
      have step: "ccap_loop S ctx i (b # bs) cs hs ps = ccap_loop S ctx (i + 1) bs ?cs ?hs ?ps"
        using c p by simp
      have len: "length ?cs = (i + 1) + length bs" "length ?hs = (i + 1) + length bs"
        "length ?ps = (i + 1) + length bs"
        using Cons.prems by simp_all
      from Cons.IH [OF len]
      show ?thesis
      proof
        assume "\<exists>e. ccap_loop S ctx (i + 1) bs ?cs ?hs ?ps = (None, None, None, Some e)"
        with step show ?thesis by simp
      next
        assume "\<exists>cs' hs' ps'.
          ccap_loop S ctx (i + 1) bs ?cs ?hs ?ps = (Some cs', Some hs', Some ps', None)
          \<and> length cs' = i + 1 + length bs \<and> length hs' = i + 1 + length bs
          \<and> length ps' = i + 1 + length bs
          \<and> (\<forall>j<i + 1. cs' ! j = ?cs ! j \<and> hs' ! j = ?hs ! j \<and> ps' ! j = ?ps ! j)
          \<and> (\<forall>j<length bs.
                BlobToKZGCommitment ctx (bs ! j) 1 = Inr (cs' ! (i + 1 + j))
                \<and> ComputeBlobKZGProof ctx (bs ! j) (cs' ! (i + 1 + j)) 1 = Inr (ps' ! (i + 1 + j))
                \<and> hs' ! (i + 1 + j) = KZGToVersionedHash S (cs' ! (i + 1 + j)))"
        then obtain cs' hs' ps' where
          res: "ccap_loop S ctx (i + 1) bs ?cs ?hs ?ps = (Some cs', Some hs', Some ps', None)"
          and l: "length cs' = i + 1 + length bs" "length hs' = i + 1 + length bs"
            "length ps' = i + 1 + length bs"
          and old: "\<forall>j<i + 1. cs' ! j = ?cs ! j \<and> hs' ! j = ?hs ! j \<and> ps' ! j = ?ps ! j"
          and new: "\<forall>j<length bs.
                BlobToKZGCommitment ctx (bs ! j) 1 = Inr (cs' ! (i + 1 + j))
                \<and> ComputeBlobKZGProof ctx (bs ! j) (cs' ! (i + 1 + j)) 1 = Inr (ps' ! (i + 1 + j))
                \<and> hs' ! (i + 1 + j) = KZGToVersionedHash S (cs' ! (i + 1 + j))"
          by blast
        have at_i: "cs' ! i = c" "hs' ! i = KZGToVersionedHash S c" "ps' ! i = p"
          using old Cons.prems by simp_all
        have before: "\<forall>j<i. cs' ! j = cs ! j \<and> hs' ! j = hs ! j \<and> ps' ! j = ps ! j"
          using old by simp
        have here: "\<forall>j<length (b # bs).
              BlobToKZGCommitment ctx ((b # bs) ! j) 1 = Inr (cs' ! (i + j))
              \<and> ComputeBlobKZGProof ctx ((b # bs) ! j) (cs' ! (i + j)) 1 = Inr (ps' ! (i + j))
              \<and> hs' ! (i + j) = KZGToVersionedHash S (cs' ! (i + j))"
        proof (intro allI impI)
          fix j assume "j < length (b # bs)"
          then show "BlobToKZGCommitment ctx ((b # bs) ! j) 1 = Inr (cs' ! (i + j))
              \<and> ComputeBlobKZGProof ctx ((b # bs) ! j) (cs' ! (i + j)) 1 = Inr (ps' ! (i + j))
              \<and> hs' ! (i + j) = KZGToVersionedHash S (cs' ! (i + j))"
            using new at_i c p by (cases j) simp_all
        qed
        show ?thesis
          using step res l before here by simp
      qed
    qed
  qed
qed

text \<open>
  Claim C4. \<open>ComputeCommitmentsAndProofs\<close> is atomic: either it returns an error and
  the three result slices are nil, or it returns no error and three slices as long as
  the input, whose entry \<open>i\<close> is the commitment of blob \<open>i\<close>, the proof for blob \<open>i\<close>
  and that commitment, and the versioned hash of that commitment.
\<close>

theorem ComputeCommitmentsAndProofs_atomic:
  "(\<exists>e. ComputeCommitmentsAndProofs sum256 cryptoCtx blobs = (None, None, None, Some e))
   \<or> (\<exists>commitments versionedHashes proofs.
        ComputeCommitmentsAndProofs sum256 cryptoCtx blobs
          = (Some commitments, Some versionedHashes, Some proofs, None)
        \<and> length commitments = length blobs
        \<and> length versionedHashes = length blobs
        \<and> length proofs = length blobs
        \<and> (\<forall>i<length blobs.
              BlobToKZGCommitment cryptoCtx (blobs ! i) 1 = Inr (commitments ! i)
              \<and> ComputeBlobKZGProof cryptoCtx (blobs ! i) (commitments ! i) 1 = Inr (proofs ! i)
              \<and> versionedHashes ! i = KZGToVersionedHash sum256 (commitments ! i)))"
  using ccap_loop_cases [of "replicate (length blobs) (replicate 48 0)" 0 blobs
      "replicate (length blobs) (replicate 32 0)" "replicate (length blobs) (replicate 48 0)"
      sum256 cryptoCtx]
  by (simp add: ComputeCommitmentsAndProofs_def)

theorem ComputeCommitmentsAndProofs_atomic_witness:
  "ComputeCommitmentsAndProofs sample_sum256 sample_ctx [zero_blob]
     = (Some [replicate 48 0],
        Some [KZGToVersionedHash sample_sum256 (replicate 48 0)],
        Some [replicate 48 0], None)
   \<and> ComputeCommitmentsAndProofs sample_sum256 sample_ctx [zero_blob, bad_blob]
     = (None, None, None,
        Some (Errorf ''could not convert blob to commitment: %v''
                [ArgError (ErrorsNew ''scalar is not canonical'')]))"
  using ComputeCommitmentsAndProofs_atomic [of sample_sum256 sample_ctx "[zero_blob]"]
    ComputeCommitmentsAndProofs_atomic [of sample_sum256 sample_ctx "[zero_blob, bad_blob]"]
  by (simp add: ComputeCommitmentsAndProofs_def sample_ctx_def take1_zero)

section \<open>Payload and pool cross-validation\<close>

lemma payload_loop_error_iff:
  assumes "\<forall>b \<in> set txs. matched unmarshal sender pool b"
  shows "isl (payload_loop unmarshal sender pool txs acc1 acc2)
         = (\<exists>b \<in> set txs. length_mismatch unmarshal pool b)"
  using assms
proof (induction txs arbitrary: acc1 acc2)
  case Nil
  then show ?case by simp
next
  case (Cons b txs)
  from Cons.prems have m: "matched unmarshal sender pool b"
    and rest: "\<forall>b \<in> set txs. matched unmarshal sender pool b" by simp_all
  note IH = Cons.IH [OF rest]
  from m show ?case
    by (auto simp: matched_def length_mismatch_def lengths_agree_def IH
        split: sum.splits option.splits Transaction.splits if_splits)
qed

text \<open>
  Claim C2, as the code has it. For a payload whose transactions all decode and whose
  blob-typed transactions are all found in the pool with wrap data,
  \<open>GetBlobDataInPayload\<close> returns an error exactly when the blob-hash list,
  commitments, blobs and proofs of some matched transaction are not all of the same
  length. The entries of the hash list are not compared with the commitments.
\<close>

theorem GetBlobDataInPayload_error_iff_length_mismatch:
  assumes "\<forall>b \<in> set (Transactions payload). matched unmarshal sender pool b"
  shows "isl (GetBlobDataInPayload unmarshal sender pool payload)
         = (\<exists>b \<in> set (Transactions payload). length_mismatch unmarshal pool b)"
  using assms by (simp add: GetBlobDataInPayload_def payload_loop_error_iff)

theorem GetBlobDataInPayload_error_iff_length_mismatch_witness:
  "matched sample_unmarshal sample_sender sample_pool [0x03, 7]
   \<and> matched sample_unmarshal sample_sender sample_pool [0x03, 8]
   \<and> length_mismatch sample_unmarshal sample_pool [0x03, 8]
   \<and> isl (GetBlobDataInPayload sample_unmarshal sample_sender sample_pool mismatch_payload)
   \<and> \<not> length_mismatch sample_unmarshal sample_pool [0x03, 7]
   \<and> \<not> isl (GetBlobDataInPayload sample_unmarshal sample_sender sample_pool sample_payload)"
proof -
  have m7: "matched sample_unmarshal sample_sender sample_pool [0x03, 7]"
    by (simp add: matched_def sample_unmarshal_def sample_sender_def sample_pool_def
        sample_blobTx_def BlobTxType_def)
  have m8: "matched sample_unmarshal sample_sender sample_pool [0x03, 8]"
    by (simp add: matched_def sample_unmarshal_def sample_sender_def sample_pool_def
        short_blobTx_def BlobTxType_def)
  have n7: "\<not> length_mismatch sample_unmarshal sample_pool [0x03, 7]"
    by (simp add: length_mismatch_def lengths_agree_def sample_unmarshal_def sample_pool_def
        sample_blobTx_def sample_wrap_def BlobTxType_def)
  have l8: "length_mismatch sample_unmarshal sample_pool [0x03, 8]"
    by (simp add: length_mismatch_def lengths_agree_def sample_unmarshal_def sample_pool_def
        short_blobTx_def sample_wrap_def BlobTxType_def)
  have h: "\<forall>b \<in> set (Transactions sample_payload).
             matched sample_unmarshal sample_sender sample_pool b"
    using m7 by (simp add: sample_payload_def)
  have h': "\<forall>b \<in> set (Transactions mismatch_payload).
             matched sample_unmarshal sample_sender sample_pool b"
    using m7 m8 by (simp add: mismatch_payload_def)
  show ?thesis
    using m7 m8 n7 l8 GetBlobDataInPayload_error_iff_length_mismatch [OF h]
      GetBlobDataInPayload_error_iff_length_mismatch [OF h']
    by (simp add: sample_payload_def mismatch_payload_def)
qed

lemma versioned_hash_nonzero: "ComputeVersionedHash sum256 c \<noteq> replicate 32 0"
proof (cases "sum256 c")
  case Nil
  have "length (ComputeVersionedHash sum256 c) = 0"
    using Nil by (simp add: ComputeVersionedHash_def KZGToVersionedHash_def)
  then show ?thesis by auto
next
  case (Cons x xs)
  have "ComputeVersionedHash sum256 c ! 0 = 1"
    using Cons by (simp add: ComputeVersionedHash_def KZGToVersionedHash_def
        BlobCommitmentVersionKZG_def)
  then show ?thesis by auto
qed

text \<open>
  Claim C2 as stated fails. The pool entry below has one blob hash, all zero, and one
  commitment. The versioned hash of a commitment is never all zero, whatever the hash
  function (\<open>versioned_hash_nonzero\<close>), so the two lists have equal length and differ at
  index 0; \<open>GetBlobDataInPayload\<close> returns no error.
\<close>

theorem GetBlobDataInPayload_accepts_differing_hashes:
  "GetBlobDataInPayload sample_unmarshal sample_sender sample_pool sample_payload
     = Inr ([sample_blobTx],
            [\<lparr>VersionedHash = replicate 32 0, KZG = replicate 48 0, Blob = zero_blob,
              Proof = replicate 48 0\<rparr>])
   \<and> BlobData sample_blobTx = Some sample_wrap
   \<and> length (map (ComputeVersionedHash sample_sum256) (Commitments sample_wrap))
       = length (TxBlobHashes (Tx sample_blobTx))
   \<and> map (ComputeVersionedHash sample_sum256) (Commitments sample_wrap) ! 0
       \<noteq> TxBlobHashes (Tx sample_blobTx) ! 0"
proof -
  have run: "GetBlobDataInPayload sample_unmarshal sample_sender sample_pool sample_payload
     = Inr ([sample_blobTx],
            [\<lparr>VersionedHash = replicate 32 0, KZG = replicate 48 0, Blob = zero_blob,
              Proof = replicate 48 0\<rparr>])"
    by (simp add: GetBlobDataInPayload_def sample_payload_def sample_unmarshal_def
        sample_sender_def sample_pool_def sample_blobTx_def sample_wrap_def BlobTxType_def
        wrap_data_of_def)
  have diff: "map (ComputeVersionedHash sample_sum256) (Commitments sample_wrap) ! 0
       \<noteq> TxBlobHashes (Tx sample_blobTx) ! 0"
    using versioned_hash_nonzero [of sample_sum256 "replicate 48 0"]
    by (simp add: sample_wrap_def sample_blobTx_def)
  show ?thesis
    using run diff by (simp add: sample_wrap_def sample_blobTx_def)
qed

section \<open>Payload verification before the fork\<close>

text \<open>
  Claim C9. For a payload whose timestamp is before the fork activation,
  \<open>VerifyPayload\<close> returns an error if and only if the payload's excess-blob-gas field
  or its blob-gas-used field is present; no receipt is asked for, and when both fields
  are absent it succeeds whatever the previous payload and the transactions are.
\<close>

theorem VerifyPayload_pre_fork:
  assumes "\<not> IsCancun forkConfig (Timestamp payload)"
  shows "(snd (VerifyPayload gas step forkConfig blobTxsInPayload payload previousPayload) \<noteq> None)
           = (ExcessDataGas payload \<noteq> None \<or> DataGasUsed payload \<noteq> None)
       \<and> fst (VerifyPayload gas step forkConfig blobTxsInPayload payload previousPayload) = []
       \<and> (ExcessDataGas payload = None \<and> DataGasUsed payload = None \<longrightarrow>
            VerifyPayload gas step forkConfig blobTxsInPayload payload previousPayload
              = ([], None))"
  using assms by (simp add: VerifyPayload_def Let_def)

theorem VerifyPayload_pre_fork_witness:
  "\<not> IsCancun sample_forks (Timestamp pre_fork_payload)
   \<and> VerifyPayload sample_gas sample_NewPayloads sample_forks [] pre_fork_payload None
       = ([], None)
   \<and> snd (VerifyPayload sample_gas sample_NewPayloads sample_forks []
            (pre_fork_payload\<lparr>DataGasUsed := Some 0\<rparr>) (Some pre_fork_payload)) \<noteq> None"
proof -
  have h: "\<not> IsCancun sample_forks (Timestamp pre_fork_payload)"
    by (simp add: IsCancun_def sample_forks_def pre_fork_payload_def)
  have h': "\<not> IsCancun sample_forks (Timestamp (pre_fork_payload\<lparr>DataGasUsed := Some 0\<rparr>))"
    by (simp add: IsCancun_def sample_forks_def pre_fork_payload_def)
  show ?thesis
    using h VerifyPayload_pre_fork [OF h, of sample_gas sample_NewPayloads "[]" None]
      VerifyPayload_pre_fork [OF h', of sample_gas sample_NewPayloads "[]" "Some pre_fork_payload"]
    by (simp add: pre_fork_payload_def)
qed

section \<open>The blob synthesizer\<close>

subsection \<open>Slices and copies\<close>

lemma length_copy_bytes [simp]: "length (copy_bytes dst src) = length dst"
  by (simp add: copy_bytes_def Let_def)

lemma length_slice [simp]: "hi \<le> length xs \<Longrightarrow> length (subslice xs lo hi) = hi - lo"
  by (simp add: subslice_def)

lemma length_copy_into [simp]:
  "lo \<le> hi \<Longrightarrow> hi \<le> length blob \<Longrightarrow> length (copy_into blob lo hi src) = length blob"
  by (simp add: copy_into_def)

lemma slice_copy_into:
  "lo \<le> hi \<Longrightarrow> hi \<le> length blob \<Longrightarrow>
   subslice (copy_into blob lo hi src) lo hi = copy_bytes (subslice blob lo hi) src"
  by (simp add: copy_into_def subslice_def)

lemma nth_copy_into_outside:
  "lo \<le> hi \<Longrightarrow> hi \<le> length blob \<Longrightarrow> j < lo \<or> hi \<le> j \<Longrightarrow>
   copy_into blob lo hi src ! j = blob ! j"
  by (auto simp: copy_into_def nth_append)

lemma nth_slice: "hi \<le> length xs \<Longrightarrow> i < hi - lo \<Longrightarrow> subslice xs lo hi ! i = xs ! (lo + i)"
  by (simp add: subslice_def)

lemma slice_update:
  "i < hi - lo \<Longrightarrow> subslice (xs[lo + i := v]) lo hi = (subslice xs lo hi)[i := v]"
  by (simp add: subslice_def drop_update_swap take_update_swap)

lemma slice_cong:
  "hi \<le> length xs \<Longrightarrow> hi \<le> length ys \<Longrightarrow> (\<forall>j<hi. xs ! j = ys ! j) \<Longrightarrow>
   subslice xs lo hi = subslice ys lo hi"
  by (rule nth_equalityI) (simp_all add: nth_slice)

subsection \<open>The clamping loops\<close>

lemma length_fill_clamp [simp]: "length (fill_clamp M c i b) = length b"
  by (induction M c i b rule: fill_clamp.induct) (subst fill_clamp.simps, simp)

lemma fill_clamp_outside:
  "j < c * 32 + i \<or> c * 32 + 32 \<le> j \<Longrightarrow> fill_clamp M c i b ! j = b ! j"
proof (induction M c i b rule: fill_clamp.induct)
  case (1 M c i b)
  show ?case
    using "1.prems" "1.IH"
    by (subst fill_clamp.simps) (auto simp: nth_list_update)
qed

lemma slice_fill_clamp:
  "c * 32 + 32 \<le> length b \<Longrightarrow>
   subslice (fill_clamp M c i b) (c * 32) (c * 32 + 32) = verify_clamp M i (subslice b (c * 32) (c * 32 + 32))"
proof (induction M c i b rule: fill_clamp.induct)
  case (1 M c i b)
  show ?case
  proof (cases "i < 32")
    case False
    then show ?thesis by (simp add: fill_clamp.simps verify_clamp.simps)
  next
    case True
    then have nth: "subslice b (c * 32) (c * 32 + 32) ! i = b ! (c * 32 + i)"
      using "1.prems" by (simp add: nth_slice)
    have upd: "\<And>v. subslice (b[c * 32 + i := v]) (c * 32) (c * 32 + 32)
                 = (subslice b (c * 32) (c * 32 + 32))[i := v]"
      using True by (simp add: slice_update)
    show ?thesis
      using True "1.prems" "1.IH"
      by (subst fill_clamp.simps, subst verify_clamp.simps) (auto simp: nth upd)
  qed
qed

subsection \<open>The chunk loops, one iteration at a time\<close>

lemma fill_loop_step:
  "k < FieldElementsPerBlob \<Longrightarrow>
   fill_loop S M k h b =
     fill_loop S M (k + 1) (S h) (fill_clamp M k 0 (copy_into b (k * 32) (k * 32 + 32) h))"
  by (subst fill_loop.simps) (simp add: add.commute)

lemma fill_loop_stop: "\<not> k < FieldElementsPerBlob \<Longrightarrow> fill_loop S M k h b = b"
  by (subst fill_loop.simps) simp

lemma verify_loop_step:
  "k < FieldElementsPerBlob \<Longrightarrow>
   verify_loop S M k h b =
     (subslice b (k * 32) (k * 32 + 32) = verify_clamp M 0 (copy_bytes (replicate 32 0) h)
      \<and> verify_loop S M (k + 1) (S h) b)"
  by (subst verify_loop.simps) (simp add: add.commute)

lemma verify_loop_stop: "\<not> k < FieldElementsPerBlob \<Longrightarrow> verify_loop S M k h b"
  by (subst verify_loop.simps) simp

lemma verify_zero_loop_step:
  "k < FieldElementsPerBlob \<Longrightarrow>
   verify_zero_loop k b =
     (subslice b (k * 32) (k * 32 + 32) = replicate 32 0 \<and> verify_zero_loop (k + 1) b)"
  by (subst verify_zero_loop.simps) (simp add: add.commute)

lemma verify_zero_loop_stop: "\<not> k < FieldElementsPerBlob \<Longrightarrow> verify_zero_loop k b"
  by (subst verify_zero_loop.simps) simp

lemma next_chunk: "(k + 1) * 32 = k * 32 + (32 :: nat)"
  by simp

subsection \<open>Filling leaves earlier chunks alone\<close>

lemma length_fill_loop [simp]:
  "length b = FieldElementsPerBlob * 32 \<Longrightarrow> length (fill_loop S M k h b) = length b"
proof (induction S M k h b rule: fill_loop.induct)
  case (1 S M k h b)
  show ?case
  proof (cases "k < FieldElementsPerBlob")
    case False
    then show ?thesis by (simp add: fill_loop_stop)
  next
    case True
    let ?b2 = "fill_clamp M k 0 (copy_into b (k * 32) (k * 32 + 32) h)"
    have "k * 32 + 32 \<le> length b" using True "1.prems" by simp
    then have len: "length ?b2 = FieldElementsPerBlob * 32"
      using "1.prems" by simp
    have "length (fill_loop S M (k + 1) (S h) ?b2) = length ?b2"
      using "1.IH" [unfolded next_chunk, OF True len] .
    then show ?thesis
      using len "1.prems" by (simp add: fill_loop_step [OF True])
  qed
qed

lemma fill_loop_before:
  "length b = FieldElementsPerBlob * 32 \<Longrightarrow> j < k * 32 \<Longrightarrow> fill_loop S M k h b ! j = b ! j"
proof (induction S M k h b rule: fill_loop.induct)
  case (1 S M k h b)
  show ?case
  proof (cases "k < FieldElementsPerBlob")
    case False
    then show ?thesis by (simp add: fill_loop_stop)
  next
    case True
    let ?b1 = "copy_into b (k * 32) (k * 32 + 32) h"
    let ?b2 = "fill_clamp M k 0 ?b1"
    have hi: "k * 32 + 32 \<le> length b" using True "1.prems" by simp
    then have len: "length ?b2 = FieldElementsPerBlob * 32"
      using "1.prems" by simp
    have j': "j < k * 32 + 32" using "1.prems" by simp
    have "fill_loop S M k h b ! j = fill_loop S M (k + 1) (S h) ?b2 ! j"
      by (simp only: fill_loop_step [OF True])
    also have "\<dots> = ?b2 ! j"
      using "1.IH" [unfolded next_chunk, OF True len j'] .
    also have "\<dots> = ?b1 ! j"
      using "1.prems" by (simp add: fill_clamp_outside)
    also have "\<dots> = b ! j"
      using "1.prems" hi by (simp add: nth_copy_into_outside)
    finally show ?thesis .
  qed
qed

subsection \<open>Verification of a filled blob\<close>

lemma zero_slice:
  "c * 32 + 32 \<le> length b \<Longrightarrow> \<forall>j. c * 32 \<le> j \<and> j < length b \<longrightarrow> b ! j = 0 \<Longrightarrow>
   subslice b (c * 32) (c * 32 + 32) = replicate 32 0"
  by (rule nth_equalityI) (simp_all add: nth_slice)

lemma verify_fill_loop:
  "length b = FieldElementsPerBlob * 32 \<Longrightarrow>
   \<forall>j. k * 32 \<le> j \<and> j < length b \<longrightarrow> b ! j = 0 \<Longrightarrow>
   verify_loop S M k h (fill_loop S M k h b)"
proof (induction S M k h b rule: fill_loop.induct)
  case (1 S M k h b)
  show ?case
  proof (cases "k < FieldElementsPerBlob")
    case False
    then show ?thesis by (simp add: verify_loop_stop)
  next
    case True
    let ?b1 = "copy_into b (k * 32) (k * 32 + 32) h"
    let ?b2 = "fill_clamp M k 0 ?b1"
    let ?r = "fill_loop S M (k + 1) (S h) ?b2"
    have hi: "k * 32 + 32 \<le> length b" using True "1.prems" by simp
    have len1: "length ?b1 = length b" using hi by simp
    have len2: "length ?b2 = FieldElementsPerBlob * 32" using len1 "1.prems" by simp
    have r: "fill_loop S M k h b = ?r"
      by (rule fill_loop_step [OF True])
    have lenr: "length ?r = FieldElementsPerBlob * 32" using len2 by simp
    have zeros2: "\<forall>j. k * 32 + 32 \<le> j \<and> j < length ?b2 \<longrightarrow> ?b2 ! j = 0"
    proof (intro allI impI)
      fix j assume j: "k * 32 + 32 \<le> j \<and> j < length ?b2"
      then have "?b2 ! j = ?b1 ! j" by (simp add: fill_clamp_outside)
      also have "\<dots> = b ! j" using j hi by (simp add: nth_copy_into_outside)
      also have "\<dots> = 0" using j "1.prems" len2 by simp
      finally show "?b2 ! j = 0" .
    qed
    have rest: "verify_loop S M (k + 1) (S h) ?r"
      using "1.IH" [unfolded next_chunk, OF True len2 zeros2] .
    have before: "\<forall>j<k * 32 + 32. ?r ! j = ?b2 ! j"
      using len2 by (simp add: fill_loop_before)
    have "subslice ?r (k * 32) (k * 32 + 32) = subslice ?b2 (k * 32) (k * 32 + 32)"
      using lenr len2 True before by (intro slice_cong) simp_all
    also have "\<dots> = verify_clamp M 0 (subslice ?b1 (k * 32) (k * 32 + 32))"
      using hi len1 by (simp add: slice_fill_clamp)
    also have "subslice ?b1 (k * 32) (k * 32 + 32)
        = copy_bytes (subslice b (k * 32) (k * 32 + 32)) h"
      using hi by (intro slice_copy_into) simp_all
    also have "subslice b (k * 32) (k * 32 + 32) = replicate 32 0"
      using hi "1.prems" by (intro zero_slice) simp_all
    finally have chunk: "subslice ?r (k * 32) (k * 32 + 32)
        = verify_clamp M 0 (copy_bytes (replicate 32 0) h)" .
    show ?thesis
      unfolding r using chunk rest by (simp only: verify_loop_step [OF True] simp_thms)
  qed
qed

lemma verify_zero_loop_zero:
  "length b = FieldElementsPerBlob * 32 \<Longrightarrow> \<forall>j<length b. b ! j = 0 \<Longrightarrow> verify_zero_loop k b"
proof (induction k b rule: verify_zero_loop.induct)
  case (1 k b)
  show ?case
  proof (cases "k < FieldElementsPerBlob")
    case False
    then show ?thesis by (simp add: verify_zero_loop_stop)
  next
    case True
    then have hi: "k * 32 + 32 \<le> length b" using "1.prems" by simp
    have chunk: "subslice b (k * 32) (k * 32 + 32) = replicate 32 0"
      using "1.prems" by (intro zero_slice [OF hi]) simp
    have chunk': "subslice b (k * 32) ((k + 1) * 32) = replicate 32 0"
      using chunk by (simp only: next_chunk)
    have "verify_zero_loop (k + 1) b"
      using "1.IH" [OF True _ "1.prems"] chunk' by simp
    then show ?thesis
      using chunk by (simp only: verify_zero_loop_step [OF True] simp_thms)
  qed
qed

lemma verify_zero_loop_only_zero:
  "length b = FieldElementsPerBlob * 32 \<Longrightarrow> verify_zero_loop k b \<Longrightarrow>
   \<forall>j. k * 32 \<le> j \<and> j < length b \<longrightarrow> b ! j = 0"
proof (induction k b rule: verify_zero_loop.induct)
  case (1 k b)
  show ?case
  proof (cases "k < FieldElementsPerBlob")
    case False
    then have "FieldElementsPerBlob * 32 \<le> k * 32" by simp
    then show ?thesis using "1.prems"(1) by auto
  next
    case True
    then have hi: "k * 32 + 32 \<le> length b" using "1.prems" by simp
    from "1.prems"(2) have chunk: "subslice b (k * 32) (k * 32 + 32) = replicate 32 0"
      and rest: "verify_zero_loop (k + 1) b"
      by (simp_all only: verify_zero_loop_step [OF True])
    have chunk': "subslice b (k * 32) ((k + 1) * 32) = replicate 32 0"
      using chunk by (simp only: next_chunk)
    have later: "\<forall>j. k * 32 + 32 \<le> j \<and> j < length b \<longrightarrow> b ! j = 0"
      using "1.IH" [OF True _ "1.prems"(1) rest] chunk' by (simp add: add.commute)
    show ?thesis
    proof (intro allI impI)
      fix j assume j: "k * 32 \<le> j \<and> j < length b"
      show "b ! j = 0"
      proof (cases "j < k * 32 + 32")
        case False
        with later j show ?thesis by simp
      next
        case near: True
        then have "subslice b (k * 32) (k * 32 + 32) ! (j - k * 32) = b ! (k * 32 + (j - k * 32))"
          using hi j by (intro nth_slice) simp_all
        then have "b ! j = replicate 32 0 ! (j - k * 32)"
          using j chunk by simp
        then show ?thesis using near j by simp
      qed
    qed
  qed
qed

text \<open>
  Claim C6. For every \<open>BlobID\<close>, \<open>FillBlob\<close> applied to a fresh all-zero blob buffer
  succeeds and \<open>VerifyBlob\<close> with the same identifier returns true and no error on the
  result. For identifier 0 the blob stays all-zero, and \<open>VerifyBlob(0)\<close> accepts a blob
  exactly when it is the all-zero blob. This holds whatever the hash function and the
  modulus are.
\<close>

theorem FillBlob_VerifyBlob_roundtrip:
  "(\<exists>blob. FillBlob sum256 BlsModulus blobId (Some zero_blob) = Inr blob
         \<and> VerifyBlob sum256 BlsModulus blobId (Some blob) = (True, None))
   \<and> FillBlob sum256 BlsModulus 0 (Some zero_blob) = Inr zero_blob
   \<and> (length b = 131072 \<longrightarrow>
        (VerifyBlob sum256 BlsModulus 0 (Some b) = (True, None)) = (b = zero_blob))"
proof (intro conjI impI)
  show "\<exists>blob. FillBlob sum256 BlsModulus blobId (Some zero_blob) = Inr blob
         \<and> VerifyBlob sum256 BlsModulus blobId (Some blob) = (True, None)"
  proof (cases "blobId = 0")
    case True
    have "verify_zero_loop 0 zero_blob"
      by (rule verify_zero_loop_zero) (simp_all add: zero_blob_def FieldElementsPerBlob_def)
    with True show ?thesis by (simp add: FillBlob_def VerifyBlob_def)
  next
    case False
    have "verify_loop sum256 BlsModulus 0 (sum256 (PutUint64 blobId))
            (fill_loop sum256 BlsModulus 0 (sum256 (PutUint64 blobId)) zero_blob)"
      by (rule verify_fill_loop) (simp_all add: zero_blob_def FieldElementsPerBlob_def)
    with False show ?thesis by (simp add: FillBlob_def VerifyBlob_def)
  qed
  show "FillBlob sum256 BlsModulus 0 (Some zero_blob) = Inr zero_blob"
    by (simp add: FillBlob_def)
  assume len: "length b = 131072"
  show "(VerifyBlob sum256 BlsModulus 0 (Some b) = (True, None)) = (b = zero_blob)"
  proof
    assume "VerifyBlob sum256 BlsModulus 0 (Some b) = (True, None)"
    then have "verify_zero_loop 0 b" by (simp add: VerifyBlob_def)
    then have "\<forall>j. 0 * 32 \<le> j \<and> j < length b \<longrightarrow> b ! j = 0"
      using len by (intro verify_zero_loop_only_zero) (simp_all add: FieldElementsPerBlob_def)
    then show "b = zero_blob"
      using len by (intro nth_equalityI) (simp_all add: zero_blob_def)
  next
    assume "b = zero_blob"
    moreover have "verify_zero_loop 0 zero_blob"
      by (rule verify_zero_loop_zero) (simp_all add: zero_blob_def FieldElementsPerBlob_def)
    ultimately show "VerifyBlob sum256 BlsModulus 0 (Some b) = (True, None)"
      by (simp add: VerifyBlob_def)
  qed
qed

theorem FillBlob_VerifyBlob_roundtrip_witness:
  "length bad_blob = 131072
   \<and> VerifyBlob sample_sum256 BLS_MODULUS 0 (Some bad_blob) \<noteq> (True, None)
   \<and> (\<exists>blob. FillBlob sample_sum256 BLS_MODULUS 1 (Some zero_blob) = Inr blob
         \<and> VerifyBlob sample_sum256 BLS_MODULUS 1 (Some blob) = (True, None))"
proof -
  have len: "length bad_blob = 131072" by (simp add: bad_blob_def)
  have ne: "bad_blob \<noteq> zero_blob" by (simp add: bad_blob_def zero_blob_def)
  show ?thesis
    using len ne FillBlob_VerifyBlob_roundtrip [of sample_sum256 BLS_MODULUS 1 bad_blob]
    by simp
qed

subsection \<open>Field elements stay below the modulus\<close>

lemma be_nat_bound: "be_nat bs < 256 ^ length bs"
proof (induction bs)
  case Nil
  show ?case by simp
next
  case (Cons b bs)
  define A :: nat where "A = 256 ^ length bs"
  have "unat b < 256" using unsigned_less [of b] by simp
  then have "unat b + 1 \<le> 256" by simp
  then have "(unat b + 1) * A \<le> 256 * A" by (rule mult_le_mono1)
  then have "unat b * A + A \<le> 256 * A" by (simp add: algebra_simps)
  moreover have "be_nat bs < A" using Cons.IH by (simp add: A_def)
  ultimately have "unat b * A + be_nat bs < 256 * A" by linarith
  then show ?case by (simp add: A_def)
qed

lemma be_nat_lex_less:
  "length xs = length ys \<Longrightarrow> p < length xs \<Longrightarrow> \<forall>j<p. xs ! j = ys ! j \<Longrightarrow>
   xs ! p < ys ! p \<Longrightarrow> be_nat xs < be_nat ys"
proof (induction xs arbitrary: ys p)
  case Nil
  then show ?case by simp
next
  case (Cons x xs)
  then obtain y ys' where ys: "ys = y # ys'" by (cases ys) auto
  with Cons.prems have len: "length xs = length ys'" by simp
  show ?case
  proof (cases p)
    case 0
    define A :: nat where "A = 256 ^ length xs"
    from 0 Cons.prems ys have "unat x < unat y" by (simp add: word_less_nat_alt)
    then have "unat x + 1 \<le> unat y" by simp
    then have "(unat x + 1) * A \<le> unat y * A" by (rule mult_le_mono1)
    then have "unat x * A + A \<le> unat y * A" by (simp add: algebra_simps)
    moreover have "be_nat xs < A" using be_nat_bound [of xs] by (simp add: A_def)
    ultimately have "unat x * A + be_nat xs < unat y * A + be_nat ys'" by linarith
    then show ?thesis using ys len by (simp add: A_def)
  next
    case (Suc p')
    with Cons.prems ys have "x = y" by auto
    moreover have "be_nat xs < be_nat ys'"
    proof (rule Cons.IH [OF len])
      show "p' < length xs" using Cons.prems Suc by simp
      show "\<forall>j<p'. xs ! j = ys' ! j" using Cons.prems Suc ys by auto
      show "xs ! p' < ys' ! p'" using Cons.prems Suc ys by simp
    qed
    ultimately show ?thesis using ys len by simp
  qed
qed

lemma be_nat_zero: "\<forall>j<length bs. bs ! j = 0 \<Longrightarrow> be_nat bs = 0"
proof (induction bs)
  case Nil
  show ?case by simp
next
  case (Cons b bs)
  from Cons.prems have "b = 0" by auto
  moreover from Cons.prems have "\<forall>j<length bs. bs ! j = 0" by auto
  ultimately show ?case using Cons.IH by simp
qed

lemma word_pred_less: "(0 :: byte) < m \<Longrightarrow> m - 1 < m"
proof -
  assume "0 < m"
  then have nz: "m \<noteq> 0" by auto
  then have "unat (m - 1) = unat m - 1" by (rule unat_minus_one)
  moreover have "0 < unat m" using nz by (simp add: unat_gt_0)
  ultimately show ?thesis by (simp add: word_less_nat_alt)
qed

lemma fill_clamp_below:
  assumes "length M = 32" and "\<exists>j<32. M ! j \<noteq> 0"
    and "i \<le> 32" and "\<forall>j<i. M ! j = 0 \<and> b ! (c * 32 + j) = 0"
    and "c * 32 + 32 \<le> length b"
  shows "\<exists>p<32. (\<forall>j<p. fill_clamp M c i b ! (c * 32 + j) = M ! j)
              \<and> fill_clamp M c i b ! (c * 32 + p) < M ! p"
  using assms
proof (induction M c i b rule: fill_clamp.induct)
  case (1 M c i b)
  show ?case
  proof (cases "i < 32")
    case False
    with "1.prems" have "i = 32" by simp
    with "1.prems" show ?thesis by auto
  next
    case i: True
    show ?thesis
    proof (cases "b ! (c * 32 + i) < M ! i")
      case True
      then have "fill_clamp M c i b = b"
        using i by (subst fill_clamp.simps) simp
      with True i "1.prems" show ?thesis by auto
    next
      case lt: False
      then have ge: "M ! i \<le> b ! (c * 32 + i)" by simp
      show ?thesis
      proof (cases "0 < M ! i")
        case True
        then have r: "fill_clamp M c i b = b[c * 32 + i := M ! i - 1]"
          using i lt ge by (subst fill_clamp.simps) simp
        have "(\<forall>j<i. (b[c * 32 + i := M ! i - 1]) ! (c * 32 + j) = M ! j)
            \<and> (b[c * 32 + i := M ! i - 1]) ! (c * 32 + i) < M ! i"
          using "1.prems" i True by (simp add: word_pred_less)
        with i show ?thesis unfolding r by blast
      next
        case False
        then have z: "M ! i = 0" by (simp add: word_neq_0_conv [symmetric])
        let ?b = "b[c * 32 + i := M ! i]"
        have r: "fill_clamp M c i b = fill_clamp M c (i + 1) ?b"
          using i lt ge False by (subst fill_clamp.simps) simp
        have pre: "\<forall>j<i + 1. M ! j = 0 \<and> ?b ! (c * 32 + j) = 0"
        proof (intro allI impI)
          fix j assume "j < i + 1"
          then show "M ! j = 0 \<and> ?b ! (c * 32 + j) = 0"
            using "1.prems" z i by (cases "j = i") (simp_all add: nth_list_update)
        qed
        have "\<exists>p<32. (\<forall>j<p. fill_clamp M c (i + 1) ?b ! (c * 32 + j) = M ! j)
              \<and> fill_clamp M c (i + 1) ?b ! (c * 32 + p) < M ! p"
        proof (rule "1.IH"(1) [OF i lt ge False "1.prems"(1,2) _ pre])
          show "i + 1 \<le> 32" using i by simp
          show "c * 32 + 32 \<le> length ?b" using "1.prems"(5) by simp
        qed
        then show ?thesis unfolding r .
      qed
    qed
  qed
qed

lemma chunk_below:
  assumes "length M = 32" and "c * 32 + 32 \<le> length r"
    and "\<exists>p<32. (\<forall>j<p. r ! (c * 32 + j) = M ! j) \<and> r ! (c * 32 + p) < M ! p"
  shows "be_nat (subslice r (c * 32) (c * 32 + 32)) < be_nat M"
proof -
  from assms(3) obtain p where p: "p < 32" "\<forall>j<p. r ! (c * 32 + j) = M ! j"
    "r ! (c * 32 + p) < M ! p" by blast
  show ?thesis
  proof (rule be_nat_lex_less [where p = p])
    show "length (subslice r (c * 32) (c * 32 + 32)) = length M" using assms by simp
    show "p < length (subslice r (c * 32) (c * 32 + 32))" using assms p by simp
    show "\<forall>j<p. subslice r (c * 32) (c * 32 + 32) ! j = M ! j"
      using assms p by (simp add: nth_slice)
    show "subslice r (c * 32) (c * 32 + 32) ! p < M ! p"
      using assms p by (simp add: nth_slice)
  qed
qed

lemma fill_loop_below:
  assumes M: "length M = 32" "\<exists>j<32. M ! j \<noteq> 0"
  shows "length b = FieldElementsPerBlob * 32 \<Longrightarrow> k \<le> c \<Longrightarrow> c < FieldElementsPerBlob \<Longrightarrow>
     be_nat (subslice (fill_loop S M k h b) (c * 32) (c * 32 + 32)) < be_nat M"
  using M
proof (induction S M k h b rule: fill_loop.induct)
  case (1 S M k h b)
  have k: "k < FieldElementsPerBlob" using "1.prems" by simp
  let ?b1 = "copy_into b (k * 32) (k * 32 + 32) h"
  let ?b2 = "fill_clamp M k 0 ?b1"
  let ?r = "fill_loop S M (k + 1) (S h) ?b2"
  have hi: "k * 32 + 32 \<le> length b" using k "1.prems" by simp
  have len1: "length ?b1 = length b" using hi by simp
  have len2: "length ?b2 = FieldElementsPerBlob * 32" using len1 "1.prems" by simp
  have lenr: "length ?r = FieldElementsPerBlob * 32" using len2 by simp
  have r: "fill_loop S M k h b = ?r" by (rule fill_loop_step [OF k])
  show ?case
  proof (cases "c = k")
    case True
    have before: "\<forall>j<k * 32 + 32. ?r ! j = ?b2 ! j"
      using len2 by (simp add: fill_loop_before)
    have same: "subslice ?r (k * 32) (k * 32 + 32) = subslice ?b2 (k * 32) (k * 32 + 32)"
      using lenr len2 k before by (intro slice_cong) simp_all
    have "\<exists>p<32. (\<forall>j<p. ?b2 ! (k * 32 + j) = M ! j) \<and> ?b2 ! (k * 32 + p) < M ! p"
      using "1.prems" hi len1 by (intro fill_clamp_below) simp_all
    then have "be_nat (subslice ?b2 (k * 32) (k * 32 + 32)) < be_nat M"
      using "1.prems" hi len1 by (intro chunk_below) simp_all
    then show ?thesis unfolding r True same .
  next
    case False
    then have "k + 1 \<le> c" using "1.prems" by simp
    then show ?thesis
      unfolding r using "1.IH" [unfolded next_chunk, OF k len2] "1.prems" by simp
  qed
qed

lemma be_nat_pos: "0 < be_nat M \<Longrightarrow> \<exists>j<length M. M ! j \<noteq> 0"
  using be_nat_zero [of M] by auto

text \<open>
  Claim C5. For every \<open>BlobID\<close> other than 0, after \<open>FillBlob\<close> on a blob buffer each
  of the 4096 field elements of 32 bytes, read as a big-endian number, is strictly
  below the modulus. The modulus is any 32-byte constant with a positive value, as
  \<open>BlsModulus\<close> is.
\<close>

theorem FillBlob_below_modulus:
  assumes "length BlsModulus = 32" and "0 < be_nat BlsModulus"
    and "blobId \<noteq> 0" and "length blob = 131072" and "c < 4096"
  shows "\<exists>filled. FillBlob sum256 BlsModulus blobId (Some blob) = Inr filled
          \<and> be_nat (subslice filled (c * 32) ((c + 1) * 32)) < be_nat BlsModulus"
proof -
  have nz: "\<exists>j<32. BlsModulus ! j \<noteq> 0"
    using be_nat_pos [OF assms(2)] assms(1) by simp
  have "be_nat (subslice (fill_loop sum256 BlsModulus 0 (sum256 (PutUint64 blobId)) blob)
           (c * 32) (c * 32 + 32)) < be_nat BlsModulus"
    using assms by (intro fill_loop_below [OF assms(1) nz]) (simp_all add: FieldElementsPerBlob_def)
  then show ?thesis
    using assms(3) by (simp add: FillBlob_def next_chunk add.commute)
qed

theorem FillBlob_below_modulus_witness:
  "length BLS_MODULUS = 32 \<and> 0 < be_nat BLS_MODULUS \<and> (1 :: BlobID) \<noteq> 0
   \<and> length zero_blob = 131072 \<and> (4095 :: nat) < 4096
   \<and> (\<exists>filled. FillBlob sample_sum256 BLS_MODULUS 1 (Some zero_blob) = Inr filled
          \<and> be_nat (subslice filled (4095 * 32) ((4095 + 1) * 32)) < be_nat BLS_MODULUS)"
proof -
  have h1: "length BLS_MODULUS = 32" by (simp add: BLS_MODULUS_def)
  have h2: "0 < be_nat BLS_MODULUS" by (simp add: BLS_MODULUS_def)
  have h3: "(1 :: BlobID) \<noteq> 0" by simp
  have h4: "length zero_blob = 131072" by (simp add: zero_blob_def)
  have h5: "(4095 :: nat) < 4096" by simp
  show ?thesis
    using h1 h2 h4 FillBlob_below_modulus [OF h1 h2 h3 h4 h5, of sample_sum256]
    by simp
qed

end
